theory Spec2Isabelle
  imports Complex_Main "HOL-Library.Word"
begin

section \<open>JavaScript values\<close>

text \<open>
  The TypeScript annotations of the repository are erased at run time, so the model works
  on the values the JavaScript engine handles. A string is a sequence of UTF-16 code
  units (\<open>length\<close> counts code units, and a regular expression without the \<open>u\<close> flag
  matches code units). \<open>lit\<close> turns an ASCII literal of the source into such a sequence.
\<close>

type_synonym code_unit = "16 word"
type_synonym js_string = "code_unit list"

definition lit :: "string \<Rightarrow> js_string" where
  "lit s = map of_char s"

text \<open>
  The values a remote row, a query response or a feed item can hold: what JSON carries,
  and \<open>undefined\<close> for a property that is absent. An object is the list of its own
  properties, as \<open>JSON.parse\<close> builds it. \<open>JLink\<close> is the built-in function
  \<open>String.prototype.link\<close>, the one function that a property read of the code can yield.
\<close>

datatype js_value =
    JUndefined
  | JNull
  | JBool bool
  | JNum real
  | JStr js_string
  | JArr "js_value list"
  | JObj "(js_string \<times> js_value) list"
  | JLink

text \<open>What a \<open>throw\<close> or a rejected promise carries.\<close>

datatype js_exn = TypeError | RangeError | Thrown js_value

text \<open>\<open>ToBoolean\<close>: the values that count as false are \<open>undefined\<close>, \<open>null\<close>, \<open>false\<close>,
  zero and the empty string. Every array and every object is true, the empty array too.\<close>

fun truthy :: "js_value \<Rightarrow> bool" where
  "truthy JUndefined = False"
| "truthy JNull = False"
| "truthy (JBool b) = b"
| "truthy (JNum r) = (r \<noteq> 0)"
| "truthy (JStr s) = (s \<noteq> [])"
| "truthy (JArr xs) = True"
| "truthy (JObj kvs) = True"
| "truthy JLink = True"

text \<open>\<open>a || b\<close>\<close>

definition js_or :: "js_value \<Rightarrow> js_value \<Rightarrow> js_value" where
  "js_or a b = (if truthy a then a else b)"

fun nullish :: "js_value \<Rightarrow> bool" where
  "nullish JUndefined = True"
| "nullish JNull = True"
| "nullish v = False"

text \<open>
  Reading the property \<open>k\<close> of a value that is neither \<open>null\<close> nor \<open>undefined\<close>. The keys
  the code reads are column names, \<open>data\<close>, \<open>error\<close>, \<open>items\<close>, feed item fields and
  \<open>length\<close>; of these, \<open>length\<close> exists on a string or an array, \<open>link\<close> on a string
  (the legacy method \<open>String.prototype.link\<close>, a function of one parameter, which is its
  \<open>length\<close>), and none on a number or a boolean.
\<close>

fun js_prop :: "js_value \<Rightarrow> js_string \<Rightarrow> js_value" where
  "js_prop (JObj kvs) k = (case map_of kvs k of None \<Rightarrow> JUndefined | Some v \<Rightarrow> v)"
| "js_prop (JArr xs) k = (if k = lit ''length'' then JNum (real (length xs)) else JUndefined)"
| "js_prop (JStr s) k =
     (if k = lit ''length'' then JNum (real (length s))
      else if k = lit ''link'' then JLink else JUndefined)"
| "js_prop JLink k = (if k = lit ''length'' then JNum 1 else JUndefined)"
| "js_prop v k = JUndefined"

text \<open>Reading a property of \<open>null\<close> or \<open>undefined\<close> throws a \<open>TypeError\<close>.\<close>

definition get_prop :: "js_value \<Rightarrow> js_string \<Rightarrow> js_exn + js_value" where
  "get_prop v k = (if nullish v then Inl TypeError else Inr (js_prop v k))"

text \<open>Sequencing of steps that may throw, and \<open>try { body } catch (error) { handler }\<close>.\<close>

definition bind_exn :: "js_exn + 'a \<Rightarrow> ('a \<Rightarrow> js_exn + 'b) \<Rightarrow> js_exn + 'b" where
  "bind_exn m f = (case m of Inl e \<Rightarrow> Inl e | Inr v \<Rightarrow> f v)"

definition try_catch :: "js_exn + 'a \<Rightarrow> (js_exn \<Rightarrow> js_exn + 'a) \<Rightarrow> js_exn + 'a" where
  "try_catch body handler = (case body of Inl e \<Rightarrow> handler e | Inr v \<Rightarrow> Inr v)"

text \<open>\<open>xs.map(f)\<close> on the elements of an array, left to right; the first callback that
  throws ends the traversal.\<close>

fun map_exn :: "('a \<Rightarrow> js_exn + 'b) \<Rightarrow> 'a list \<Rightarrow> js_exn + 'b list" where
  "map_exn f [] = Inr []"
| "map_exn f (x # xs) =
     (case f x of
        Inl e \<Rightarrow> Inl e
      | Inr y \<Rightarrow> (case map_exn f xs of Inl e \<Rightarrow> Inl e | Inr ys \<Rightarrow> Inr (y # ys)))"

text \<open>\<open>v.map(f)\<close> on a value that is not \<open>null\<close> or \<open>undefined\<close>: only an array has a
  \<open>map\<close> method among the values of \<open>js_value\<close>, calling it on anything else is a
  \<open>TypeError\<close>.\<close>

fun array_map :: "(js_value \<Rightarrow> js_exn + 'b) \<Rightarrow> js_value \<Rightarrow> js_exn + 'b list" where
  "array_map f (JArr xs) = map_exn f xs"
| "array_map f v = Inl TypeError"

section \<open>Events (src/types/index.ts, src/lib/supabase.ts)\<close>

text \<open>A \<open>Date\<close> object is kept as the way it was built: \<open>new Date(v)\<close> from a value, or
  \<open>new Date()\<close>, the clock when the module was loaded.\<close>

datatype js_date = DateOf js_value | DateNow

text \<open>
  \<open>new Date(v)\<close> first turns \<open>v\<close> into a primitive value, and that step can throw.
  A primitive value stays as it is. A plain object is asked for \<open>valueOf\<close> and
  \<open>toString\<close>: the inherited \<open>valueOf\<close> returns the object, which is no primitive, and the
  inherited \<open>toString\<close> returns a string; an own property of either name hides the
  inherited method and is skipped when it is not a function. So an object without an
  own \<open>toString\<close> becomes a string, and one with an own \<open>toString\<close> that is not a function
  ends in a \<open>TypeError\<close>. When the own \<open>toString\<close> or the own \<open>valueOf\<close> is \<open>JLink\<close> it is
  called, \<open>link\<close> turns its receiver into a string, which asks the same object again
  without end: a \<open>RangeError\<close> for the exhausted stack. An array is joined, which turns
  each element other than \<open>null\<close> and \<open>undefined\<close> into a string, left to right, in
  the same way. A function becomes its source text.
\<close>

fun first_exn :: "js_exn option list \<Rightarrow> js_exn option" where
  "first_exn [] = None"
| "first_exn (None # rest) = first_exn rest"
| "first_exn (Some e # rest) = Some e"

fun prim_exn :: "js_value \<Rightarrow> js_exn option" where
  "prim_exn (JObj kvs) =
     (case map_of kvs (lit ''toString'') of
        None \<Rightarrow> None
      | Some t \<Rightarrow>
          if t = JLink \<or> map_of kvs (lit ''valueOf'') = Some JLink then Some RangeError
          else Some TypeError)"
| "prim_exn (JArr xs) = first_exn (map prim_exn xs)"
| "prim_exn v = None"

text \<open>Once the value is primitive, a string is parsed and anything else is taken as a
  number; neither step throws (the date may be invalid).\<close>

definition new_Date :: "js_value \<Rightarrow> js_exn + js_date" where
  "new_Date v = (case prim_exn v of None \<Rightarrow> Inr (DateOf v) | Some e \<Rightarrow> Inl e)"

text \<open>The interface \<open>Event\<close>. The field \<open>id\<close> is named \<open>id_field\<close> here. A field holds
  whatever the mapper put there, so the fields are values, not strings or numbers.\<close>

record Event =
  id_field :: js_value
  title :: js_value
  slug :: js_value
  description :: js_value
  excerpt :: js_value
  startDate :: js_date
  endDate :: "js_date option"
  timezone :: js_value
  locationType :: js_value
  venue :: js_value
  address :: js_value
  city :: js_value
  virtualLink :: js_value
  coverImage :: js_value
  category :: js_value
  tags :: js_value
  status :: js_value
  registrationUrl :: js_value
  maxAttendees :: js_value
  registeredCount :: js_value
  createdAt :: js_date
  updatedAt :: js_date
  publishedAt :: js_date
  isFeatured :: js_value

text \<open>The environment of the process and the client built from it when the module loads:
  \<open>supabaseUrl && supabaseKey\<close> holds when both strings are non-empty. \<open>createClient\<close> is
  library code; it is taken to return a client for the two strings.\<close>

record env =
  PUBLIC_SUPABASE_URL :: "js_string option"
  PUBLIC_SUPABASE_ANON_KEY :: "js_string option"

definition supabaseUrl :: "env \<Rightarrow> js_string" where
  "supabaseUrl e = (case PUBLIC_SUPABASE_URL e of None \<Rightarrow> [] | Some s \<Rightarrow> if s \<noteq> [] then s else [])"

definition supabaseKey :: "env \<Rightarrow> js_string" where
  "supabaseKey e = (case PUBLIC_SUPABASE_ANON_KEY e of None \<Rightarrow> [] | Some s \<Rightarrow> if s \<noteq> [] then s else [])"

datatype supabase_client = createClient js_string js_string

definition supabase :: "env \<Rightarrow> supabase_client option" where
  "supabase e =
     (if supabaseUrl e \<noteq> [] \<and> supabaseKey e \<noteq> []
      then Some (createClient (supabaseUrl e) (supabaseKey e)) else None)"

definition isSupabaseConfigured :: "env \<Rightarrow> bool" where
  "isSupabaseConfigured e = (supabase e \<noteq> None)"

text \<open>
  A query is what the builder chain \<open>from(..).select(..).eq(..).order(..).limit(..).single()\<close>
  has collected when it is awaited.
\<close>

record query =
  q_table :: js_string
  q_select :: js_string
  q_eq :: "(js_string \<times> js_value) list"
  q_order :: "(js_string \<times> bool) option"
  q_limit :: "nat option"
  q_single :: bool

definition from_q :: "js_string \<Rightarrow> query" where
  "from_q t = \<lparr>q_table = t, q_select = [], q_eq = [], q_order = None, q_limit = None, q_single = False\<rparr>"

definition select_q :: "js_string \<Rightarrow> query \<Rightarrow> query" where
  "select_q cols q = q\<lparr>q_select := cols\<rparr>"

definition eq_q :: "js_string \<Rightarrow> js_value \<Rightarrow> query \<Rightarrow> query" where
  "eq_q col v q = q\<lparr>q_eq := q_eq q @ [(col, v)]\<rparr>"

definition order_q :: "js_string \<Rightarrow> bool \<Rightarrow> query \<Rightarrow> query" where
  "order_q col ascending q = q\<lparr>q_order := Some (col, ascending)\<rparr>"

definition limit_q :: "nat \<Rightarrow> query \<Rightarrow> query" where
  "limit_q n q = q\<lparr>q_limit := Some n\<rparr>"

definition single_q :: "query \<Rightarrow> query" where
  "single_q q = q\<lparr>q_single := True\<rparr>"

text \<open>
  Awaiting a promise either throws (the promise is rejected) or yields a value (it is
  resolved). For a query the code takes \<open>data\<close> and \<open>error\<close> from that value. The
  remote side is a parameter of the model: it says what the client of this process gets
  for a query. A throw while the query is built is inside the same \<open>try\<close> and counts as
  \<open>Rejects\<close> too.
\<close>

datatype settled = Rejects js_exn | Resolves js_value

type_synonym remote = "query \<Rightarrow> settled"

definition await :: "settled \<Rightarrow> js_exn + js_value" where
  "await out = (case out of Rejects e \<Rightarrow> Inl e | Resolves v \<Rightarrow> Inr v)"

text \<open>\<open>const { data, error } = await ...\<close>\<close>

definition data_error :: "settled \<Rightarrow> js_exn + js_value \<times> js_value" where
  "data_error out =
     bind_exn (await out) (\<lambda>res.
     bind_exn (get_prop res (lit ''data'')) (\<lambda>data.
     bind_exn (get_prop res (lit ''error'')) (\<lambda>error. Inr (data, error))))"

text \<open>The mapper from a remote row to an \<open>Event\<close>. Its first property read throws on a
  row that is \<open>null\<close> or \<open>undefined\<close>; on any other value no read throws. The fields of
  the object are evaluated in their order, and the five \<open>new Date\<close> among them can throw:
  \<open>startDate\<close>, \<open>endDate\<close> (built only when the column counts as true), \<open>createdAt\<close>,
  \<open>updatedAt\<close>, \<open>publishedAt\<close>.\<close>

definition mapDbEventToEvent :: "js_value \<Rightarrow> js_exn + Event" where
  "mapDbEventToEvent dbEvent =
     (if nullish dbEvent then Inl TypeError
      else
      bind_exn (new_Date (js_prop dbEvent (lit ''start_date''))) (\<lambda>start.
      bind_exn (if truthy (js_prop dbEvent (lit ''end_date''))
                then map_sum id Some (new_Date (js_prop dbEvent (lit ''end_date'')))
                else Inr None) (\<lambda>ending.
      bind_exn (new_Date (js_prop dbEvent (lit ''created_at''))) (\<lambda>created.
      bind_exn (new_Date (js_prop dbEvent (lit ''updated_at''))) (\<lambda>updated.
      bind_exn (new_Date (js_prop dbEvent (lit ''published_at''))) (\<lambda>published.
      Inr \<lparr>
        id_field = js_prop dbEvent (lit ''id''),
        title = js_prop dbEvent (lit ''title''),
        slug = js_prop dbEvent (lit ''slug''),
        description = js_prop dbEvent (lit ''description''),
        excerpt = js_or (js_prop dbEvent (lit ''excerpt'')) (JStr (lit '''')),
        startDate = start,
        endDate = ending,
        timezone = js_or (js_prop dbEvent (lit ''timezone'')) (JStr (lit ''Asia/Jakarta'')),
        locationType = js_or (js_prop dbEvent (lit ''location_type'')) (JStr (lit ''virtual'')),
        venue = js_prop dbEvent (lit ''venue''),
        address = js_prop dbEvent (lit ''address''),
        city = js_prop dbEvent (lit ''city''),
        virtualLink = js_prop dbEvent (lit ''virtual_link''),
        coverImage = js_or (js_prop dbEvent (lit ''cover_image'')) (JStr (lit '''')),
        category = js_prop dbEvent (lit ''category''),
        tags = js_or (js_prop dbEvent (lit ''tags'')) (JArr []),
        status = js_or (js_prop dbEvent (lit ''status'')) (JStr (lit ''upcoming'')),
        registrationUrl = js_prop dbEvent (lit ''registration_url''),
        maxAttendees = js_prop dbEvent (lit ''max_attendees''),
        registeredCount = js_or (js_prop dbEvent (lit ''registered_count'')) (JNum 0),
        createdAt = created,
        updatedAt = updated,
        publishedAt = published,
        isFeatured = js_or (js_prop dbEvent (lit ''is_featured'')) (JBool False)
      \<rparr>))))))"

definition sampleEvent1 :: Event where
  "sampleEvent1 = \<lparr>
     id_field = JStr (lit ''1''),
     title = JStr (lit ''DEI Workshop: Introduction to Data Engineering''),
     slug = JStr (lit ''intro-to-data-engineering''),
     description = JStr (lit ''Join us for an introductory workshop on data engineering fundamentals. Learn about ETL pipelines, data warehousing, and modern data stack.''),
     excerpt = JStr (lit ''An introductory workshop covering data engineering fundamentals, ETL pipelines, and modern data stack.''),
     startDate = DateOf (JStr (lit ''2026-03-15T09:00:00'')),
     endDate = Some (DateOf (JStr (lit ''2026-03-15T12:00:00''))),
     timezone = JStr (lit ''Asia/Jakarta''),
     locationType = JStr (lit ''virtual''),
     venue = JUndefined,
     address = JUndefined,
     city = JUndefined,
     virtualLink = JStr (lit ''https://zoom.us/j/example''),
     coverImage = JStr (lit ''''),
     category = JStr (lit ''Workshop''),
     tags = JArr [JStr (lit ''beginner''), JStr (lit ''data-engineering''), JStr (lit ''etl'')],
     status = JStr (lit ''upcoming''),
     registrationUrl = JStr (lit ''https://forms.google.com/example''),
     maxAttendees = JNum 100,
     registeredCount = JNum 45,
     createdAt = DateNow,
     updatedAt = DateNow,
     publishedAt = DateNow,
     isFeatured = JBool True
   \<rparr>"

definition sampleEvent2 :: Event where
  "sampleEvent2 = \<lparr>
     id_field = JStr (lit ''2''),
     title = JStr (lit ''Building Data Pipelines with Apache Airflow''),
     slug = JStr (lit ''data-pipelines-airflow''),
     description = JStr (lit ''Hands-on workshop on building and scheduling data pipelines using Apache Airflow.''),
     excerpt = JStr (lit ''Learn to build and schedule data pipelines using Apache Airflow in this hands-on workshop.''),
     startDate = DateOf (JStr (lit ''2026-04-20T13:00:00'')),
     endDate = Some (DateOf (JStr (lit ''2026-04-20T16:00:00''))),
     timezone = JStr (lit ''Asia/Jakarta''),
     locationType = JStr (lit ''hybrid''),
     venue = JStr (lit ''Tech Hub Jakarta''),
     address = JUndefined,
     city = JStr (lit ''Jakarta''),
     virtualLink = JUndefined,
     coverImage = JStr (lit ''''),
     category = JStr (lit ''Workshop''),
     tags = JArr [JStr (lit ''airflow''), JStr (lit ''pipelines''), JStr (lit ''automation'')],
     status = JStr (lit ''upcoming''),
     registrationUrl = JStr (lit ''https://forms.google.com/example2''),
     maxAttendees = JNum 50,
     registeredCount = JNum 23,
     createdAt = DateNow,
     updatedAt = DateNow,
     publishedAt = DateNow,
     isFeatured = JBool True
   \<rparr>"

definition sampleEvents :: "Event list" where
  "sampleEvents = [sampleEvent1, sampleEvent2]"

text \<open>The three queries the operations build.\<close>

definition eventsQuery :: query where
  "eventsQuery =
     order_q (lit ''start_date'') True (select_q (lit ''*'') (from_q (lit ''events'')))"

definition slugQuery :: "js_string \<Rightarrow> query" where
  "slugQuery s =
     single_q (eq_q (lit ''slug'') (JStr s) (select_q (lit ''*'') (from_q (lit ''events''))))"

definition featuredQuery :: query where
  "featuredQuery =
     limit_q 3 (order_q (lit ''start_date'') True
       (eq_q (lit ''status'') (JStr (lit ''upcoming''))
         (eq_q (lit ''is_featured'') (JBool True)
           (select_q (lit ''*'') (from_q (lit ''events''))))))"

text \<open>\<open>supabase!.from(..)\<close>: the client, or a \<open>TypeError\<close> on \<open>null\<close>.\<close>

definition the_client :: "env \<Rightarrow> js_exn + supabase_client" where
  "the_client e = (case supabase e of None \<Rightarrow> Inl TypeError | Some c \<Rightarrow> Inr c)"

definition getEvents :: "env \<Rightarrow> remote \<Rightarrow> js_exn + Event list" where
  "getEvents e remote =
     (if \<not> isSupabaseConfigured e then Inr sampleEvents
      else try_catch
        (bind_exn (the_client e) (\<lambda>client.
         bind_exn (data_error (remote eventsQuery)) (\<lambda>(data, error).
           if truthy error then Inr sampleEvents
           else if truthy data then array_map mapDbEventToEvent data
           else Inr sampleEvents)))
        (\<lambda>error. Inr sampleEvents))"

text \<open>\<open>sampleEvents.find(e => e.slug === slug) || null\<close>\<close>

definition findSampleBySlug :: "js_string \<Rightarrow> Event option" where
  "findSampleBySlug s = find (\<lambda>ev. slug ev = JStr s) sampleEvents"

definition getEventBySlug :: "env \<Rightarrow> remote \<Rightarrow> js_string \<Rightarrow> js_exn + Event option" where
  "getEventBySlug e remote s =
     (if \<not> isSupabaseConfigured e then Inr (findSampleBySlug s)
      else try_catch
        (bind_exn (the_client e) (\<lambda>client.
         bind_exn (data_error (remote (slugQuery s))) (\<lambda>(data, error).
           if truthy error then Inr (findSampleBySlug s)
           else if truthy data then map_sum id Some (mapDbEventToEvent data)
           else Inr None)))
        (\<lambda>error. Inr (findSampleBySlug s)))"

text \<open>\<open>sampleEvents.filter(e => e.isFeatured)\<close>\<close>

definition featuredSamples :: "Event list" where
  "featuredSamples = filter (\<lambda>ev. truthy (isFeatured ev)) sampleEvents"

text \<open>\<open>data?.length\<close>\<close>

definition opt_length :: "js_value \<Rightarrow> js_value" where
  "opt_length data = (if nullish data then JUndefined else js_prop data (lit ''length''))"

definition getFeaturedEvents :: "env \<Rightarrow> remote \<Rightarrow> js_exn + Event list" where
  "getFeaturedEvents e remote =
     (if \<not> isSupabaseConfigured e then Inr featuredSamples
      else try_catch
        (bind_exn (the_client e) (\<lambda>client.
         bind_exn (data_error (remote featuredQuery)) (\<lambda>(data, error).
           if truthy error then Inr featuredSamples
           else if truthy (opt_length data) then array_map mapDbEventToEvent data
           else Inr featuredSamples)))
        (\<lambda>error. Inr featuredSamples))"

text \<open>The remote outcomes the fallback contract speaks of: a credential is missing when
  the variable is unset or empty; a query throws; a query reports an error when the
  \<open>error\<close> of its response is set.\<close>

definition missing :: "js_string option \<Rightarrow> bool" where
  "missing v = (v = None \<or> v = Some [])"

definition throws :: "settled \<Rightarrow> bool" where
  "throws out = (case out of Rejects e \<Rightarrow> True | Resolves res \<Rightarrow> False)"

definition reports_error :: "settled \<Rightarrow> bool" where
  "reports_error out =
     (case out of Rejects e \<Rightarrow> False
      | Resolves res \<Rightarrow> \<not> nullish res \<and> truthy (js_prop res (lit ''error'')))"

text \<open>What \<open>limit(n)\<close> asks of the remote side: a response to a query with a limit
  carries no more than that many rows.\<close>

definition honours_limit :: "query \<Rightarrow> settled \<Rightarrow> bool" where
  "honours_limit q out =
     (case q_limit q of
        None \<Rightarrow> True
      | Some n \<Rightarrow>
          (case out of
             Rejects e \<Rightarrow> True
           | Resolves res \<Rightarrow>
               (case js_prop res (lit ''data'') of JArr rows \<Rightarrow> length rows \<le> n | _ \<Rightarrow> True)))"

text \<open>The values the interface \<open>Event\<close> lists for \<open>status\<close> and \<open>locationType\<close>.\<close>

definition status_values :: "js_value list" where
  "status_values =
     [JStr (lit ''upcoming''), JStr (lit ''ongoing''), JStr (lit ''completed''), JStr (lit ''cancelled'')]"

definition locationType_values :: "js_value list" where
  "locationType_values = [JStr (lit ''physical''), JStr (lit ''virtual''), JStr (lit ''hybrid'')]"

text \<open>The date columns of a row can all be given to \<open>new Date\<close>.\<close>

definition date_columns :: "string list" where
  "date_columns = [''start_date'', ''end_date'', ''created_at'', ''updated_at'', ''published_at'']"

definition dates_constructible :: "js_value \<Rightarrow> bool" where
  "dates_constructible row = list_all (\<lambda>k. prim_exn (js_prop row (lit k)) = None) date_columns"

section \<open>Article feed adapter (the Medium RSS feed parser, listed after src/README.md)\<close>

record MediumArticle =
  title :: js_value
  link :: js_value
  pubDate :: js_value
  dc_creator :: js_value
  categories :: js_value
  content_encoded :: js_value

text \<open>\<open>xs.slice(0, n)\<close> on a list of length \<open>len\<close>: a negative \<open>n\<close> counts from the end,
  so the slice ends at \<open>max (len + n) 0\<close>; otherwise it ends at \<open>min n len\<close>.\<close>

definition list_slice0 :: "'a list \<Rightarrow> int \<Rightarrow> 'a list" where
  "list_slice0 xs n = (if n < 0 then take (nat (int (length xs) + n)) xs else take (nat n) xs)"

text \<open>\<open>v.slice(0, n)\<close>: arrays and strings have the method, calling it on anything else
  is a \<open>TypeError\<close>.\<close>

fun slice0 :: "js_value \<Rightarrow> int \<Rightarrow> js_exn + js_value" where
  "slice0 (JArr xs) n = Inr (JArr (list_slice0 xs n))"
| "slice0 (JStr s) n = Inr (JStr (list_slice0 s n))"
| "slice0 v n = Inl TypeError"

text \<open>The callback of \<open>map\<close> in \<open>fetchMediumArticles\<close>: the object it builds from an
  item, and the \<open>TypeError\<close> of its first property read when the item is \<open>null\<close> or
  \<open>undefined\<close>.\<close>

definition article_fields :: "js_value \<Rightarrow> MediumArticle" where
  "article_fields item = \<lparr>
     title = js_or (js_prop item (lit ''title'')) (JStr (lit '''')),
     link = js_or (js_prop item (lit ''link'')) (JStr (lit '''')),
     pubDate = js_or (js_prop item (lit ''pubDate'')) (JStr (lit '''')),
     dc_creator = js_or (js_or (js_prop item (lit ''dc:creator'')) (js_prop item (lit ''creator'')))
                    (JStr (lit ''DEI Team'')),
     categories = js_or (js_prop item (lit ''categories'')) (JArr []),
     content_encoded = js_or (js_or (js_prop item (lit ''content:encoded'')) (js_prop item (lit ''content'')))
                         (JStr (lit ''''))
   \<rparr>"

definition article_of :: "js_value \<Rightarrow> js_exn + MediumArticle" where
  "article_of item = (if nullish item then Inl TypeError else Inr (article_fields item))"

text \<open>The first parameter is \<open>limit\<close> (10 when the caller gives none), the second what
  \<open>parser.parseURL(MEDIUM_RSS_URL)\<close> settles to.\<close>

definition fetchMediumArticles :: "int \<Rightarrow> settled \<Rightarrow> js_exn + MediumArticle list" where
  "fetchMediumArticles limit parsed =
     try_catch
       (bind_exn (await parsed) (\<lambda>feed.
        bind_exn (get_prop feed (lit ''items'')) (\<lambda>items.
        bind_exn (slice0 items limit) (\<lambda>sliced.
          array_map article_of sliced))))
       (\<lambda>error. Inr [])"

subsection \<open>Text functions\<close>

abbreviation LT :: code_unit where "LT \<equiv> 0x3C"
abbreviation GT :: code_unit where "GT \<equiv> 0x3E"
abbreviation SP :: code_unit where "SP \<equiv> 0x20"

text \<open>The class \<open>\s\<close> of a regular expression, which is also what \<open>trim\<close> removes: the
  white space and line terminator code points of ECMAScript.\<close>

definition is_space :: "code_unit \<Rightarrow> bool" where
  "is_space c =
     (c \<in> set [0x9, 0xA, 0xB, 0xC, 0xD, 0x20, 0xA0, 0x1680, 0x2028, 0x2029, 0x202F, 0x205F,
               0x3000, 0xFEFF]
      \<or> (0x2000 \<le> c \<and> c \<le> 0x200A))"

text \<open>\<open>s.replace(/<[^>]*>/g, ' ')\<close>: at a \<open><\<close> the pattern matches up to the next \<open>>\<close>
  if there is one, and the match becomes one space; the scan goes on after the match.\<close>

function strip_tags :: "js_string \<Rightarrow> js_string" where
  "strip_tags [] = []"
| "strip_tags (c # cs) =
     (if c = LT then
        (case dropWhile (\<lambda>x. x \<noteq> GT) cs of
           [] \<Rightarrow> c # strip_tags cs
         | g # rest \<Rightarrow> SP # strip_tags rest)
      else c # strip_tags cs)"
  by pat_completeness auto
termination
proof (relation "measure length")
  fix c :: code_unit and cs g rest
  assume "dropWhile (\<lambda>x. x \<noteq> GT) cs = g # rest"
  then have "length (g # rest) \<le> length cs"
    using length_dropWhile_le [of "\<lambda>x. x \<noteq> GT" cs] by simp
  then show "(rest, c # cs) \<in> measure length" by simp
qed simp_all

text \<open>\<open>s.replace(/\s+/g, ' ')\<close>: every maximal run of white space becomes one space.\<close>

function collapse_ws :: "js_string \<Rightarrow> js_string" where
  "collapse_ws [] = []"
| "collapse_ws (c # cs) =
     (if is_space c then SP # collapse_ws (dropWhile is_space cs) else c # collapse_ws cs)"
  by pat_completeness auto
termination
proof (relation "measure length")
  fix c :: code_unit and cs
  have "length (dropWhile is_space cs) \<le> length cs"
    by (rule length_dropWhile_le)
  then show "(dropWhile is_space cs, c # cs) \<in> measure length" by simp
qed simp_all

text \<open>\<open>s.trim()\<close>\<close>

definition trim :: "js_string \<Rightarrow> js_string" where
  "trim s = rev (dropWhile is_space (rev (dropWhile is_space s)))"

text \<open>\<open>s.split(/\s+/)\<close>: without a run of white space the string is the only piece (the
  empty string too); otherwise the piece before the first run, then the pieces of what
  follows the run.\<close>

function split_ws :: "js_string \<Rightarrow> js_string list" where
  "split_ws s =
     (case dropWhile (\<lambda>c. \<not> is_space c) s of
        [] \<Rightarrow> [s]
      | d # ds \<Rightarrow> takeWhile (\<lambda>c. \<not> is_space c) s # split_ws (dropWhile is_space ds))"
  by pat_completeness auto
termination
proof (relation "measure length")
  fix s :: js_string and d ds
  assume "dropWhile (\<lambda>c. \<not> is_space c) s = d # ds"
  then have "length (d # ds) \<le> length s"
    using length_dropWhile_le [of "\<lambda>c. \<not> is_space c" s] by simp
  moreover have "length (dropWhile is_space ds) \<le> length ds"
    by (rule length_dropWhile_le)
  ultimately show "(dropWhile is_space ds, s) \<in> measure length" by simp
qed simp_all

declare split_ws.simps [simp del]

definition extractExcerpt :: "js_string \<Rightarrow> int \<Rightarrow> js_string" where
  "extractExcerpt content maxLength =
     (let plainText = strip_tags content;
          cleanText = trim (collapse_ws plainText)
      in if int (length cleanText) \<le> maxLength then cleanText
         else trim (take (nat maxLength) cleanText) @ lit ''...'')"

text \<open>\<open>Math.ceil(wordCount / wordsPerMinute)\<close>, on the exact quotient.\<close>

definition calculateReadingTime :: "js_string \<Rightarrow> int" where
  "calculateReadingTime content =
     (let wordsPerMinute = 200 :: nat;
          plainText = strip_tags content;
          wordCount = length (split_ws (trim plainText))
      in \<lceil>real wordCount / real wordsPerMinute\<rceil>)"

text \<open>The notions the properties below are stated with. A string has a tag-shaped
  substring (a match of \<open><[^>]*>\<close>) when a \<open>>\<close> follows its first \<open><\<close>.\<close>

definition has_tag :: "js_string \<Rightarrow> bool" where
  "has_tag s = (GT \<in> set (dropWhile (\<lambda>c. c \<noteq> LT) s))"

text \<open>White space is collapsed when every white space character is a plain space with no
  white space after it; a string is trimmed when it neither starts nor ends with white
  space.\<close>

fun collapsed :: "js_string \<Rightarrow> bool" where
  "collapsed [] = True"
| "collapsed [c] = (is_space c \<longrightarrow> c = SP)"
| "collapsed (c # d # cs) = ((is_space c \<longrightarrow> c = SP \<and> \<not> is_space d) \<and> collapsed (d # cs))"

definition trimmed :: "js_string \<Rightarrow> bool" where
  "trimmed s = (s = [] \<or> (\<not> is_space (hd s) \<and> \<not> is_space (last s)))"

text \<open>Plain text made of words: a word is a non-empty run without white space, a gap a
  non-empty run of white space, padding a possibly empty one. \<open>text_of w rest\<close> is the
  word \<open>w\<close> followed by the gaps and words of \<open>rest\<close>.\<close>

definition is_word :: "js_string \<Rightarrow> bool" where
  "is_word w = (w \<noteq> [] \<and> list_all (\<lambda>c. \<not> is_space c) w)"

definition is_gap :: "js_string \<Rightarrow> bool" where
  "is_gap g = (g \<noteq> [] \<and> list_all is_space g)"

definition is_pad :: "js_string \<Rightarrow> bool" where
  "is_pad p = list_all is_space p"

fun text_of :: "js_string \<Rightarrow> (js_string \<times> js_string) list \<Rightarrow> js_string" where
  "text_of w [] = w"
| "text_of w ((g, w') # rest) = w @ g @ text_of w' rest"

text \<open>Inputs used to instantiate the properties; \<open>always out\<close> is a remote side that
  answers every query with \<open>out\<close>.\<close>

definition always :: "settled \<Rightarrow> remote" where
  "always out q = out"

definition env_unset :: env where
  "env_unset = \<lparr>PUBLIC_SUPABASE_URL = None, PUBLIC_SUPABASE_ANON_KEY = Some (lit ''anon-key'')\<rparr>"

definition env_set :: env where
  "env_set = \<lparr>PUBLIC_SUPABASE_URL = Some (lit ''https://dei.supabase.co''),
              PUBLIC_SUPABASE_ANON_KEY = Some (lit ''anon-key'')\<rparr>"

definition plain_row :: js_value where
  "plain_row = JObj [(lit ''status'', JStr (lit ''archived'')), (lit ''location_type'', JStr (lit ''online''))]"

definition broken_date_row :: js_value where
  "broken_date_row = JObj [(lit ''status'', JStr (lit ''archived'')),
                           (lit ''start_date'', JObj [(lit ''toString'', JNull)])]"

definition featured_row :: js_value where
  "featured_row = JObj [(lit ''is_featured'', JBool True), (lit ''status'', JStr (lit ''upcoming''))]"



definition four_rows :: js_value where
  "four_rows = JObj [(lit ''data'', JArr [featured_row, featured_row, featured_row, featured_row]),
                     (lit ''error'', JNull)]"

definition item_a :: js_value where
  "item_a = JObj [(lit ''title'', JStr (lit ''A'')), (lit ''categories'', JArr [JStr (lit ''etl'')])]"

definition item_b :: js_value where
  "item_b = JObj [(lit ''title'', JStr (lit ''B'')), (lit ''creator'', JStr (lit ''Budi''))]"

definition feed2 :: js_value where
  "feed2 = JObj [(lit ''items'', JArr [item_a, item_b])]"

definition test_html :: js_string where
  "test_html = lit ''<p>This is a long article with <strong>HTML</strong> tags that should be stripped.</p>''"

definition two_hundred_more :: "(js_string \<times> js_string) list" where
  "two_hundred_more = replicate 200 (lit ''  '', lit ''etl'')"

section \<open>Properties of the event repository\<close>

lemma always_apply [simp]: "always out q = out"
  by (simp add: always_def)

lemma isSupabaseConfigured_iff:
  "isSupabaseConfigured e \<longleftrightarrow>
     \<not> missing (PUBLIC_SUPABASE_URL e) \<and> \<not> missing (PUBLIC_SUPABASE_ANON_KEY e)"
  by (auto simp: isSupabaseConfigured_def supabase_def supabaseUrl_def supabaseKey_def missing_def
      split: option.splits)

lemma the_client_configured:
  "isSupabaseConfigured e \<Longrightarrow> \<exists>c. the_client e = Inr c"
  by (auto simp: the_client_def isSupabaseConfigured_def split: option.splits)

lemma data_error_throws: "throws out \<Longrightarrow> \<exists>x. data_error out = Inl x"
  by (auto simp: throws_def data_error_def await_def bind_exn_def split: settled.splits)

lemma data_error_reports:
  "reports_error out \<Longrightarrow> \<exists>d err. data_error out = Inr (d, err) \<and> truthy err"
  by (auto simp: reports_error_def data_error_def await_def bind_exn_def get_prop_def
      split: settled.splits)

text \<open>Each operation, with the \<open>try\<close> and the client lookup resolved into cases.\<close>

lemma getEvents_cases:
  "getEvents e remote =
     (if \<not> isSupabaseConfigured e then Inr sampleEvents
      else case data_error (remote eventsQuery) of
        Inl x \<Rightarrow> Inr sampleEvents
      | Inr (d, err) \<Rightarrow>
          if truthy err then Inr sampleEvents
          else if truthy d then
            (case array_map mapDbEventToEvent d of Inl x \<Rightarrow> Inr sampleEvents | Inr evs \<Rightarrow> Inr evs)
          else Inr sampleEvents)"
  using the_client_configured [of e]
  by (auto simp: getEvents_def try_catch_def bind_exn_def split: sum.splits)

lemma getEventBySlug_cases:
  "getEventBySlug e remote s =
     (if \<not> isSupabaseConfigured e then Inr (findSampleBySlug s)
      else case data_error (remote (slugQuery s)) of
        Inl x \<Rightarrow> Inr (findSampleBySlug s)
      | Inr (d, err) \<Rightarrow>
          if truthy err then Inr (findSampleBySlug s)
          else if truthy d then
            (case mapDbEventToEvent d of Inl x \<Rightarrow> Inr (findSampleBySlug s) | Inr ev \<Rightarrow> Inr (Some ev))
          else Inr None)"
  using the_client_configured [of e]
  by (auto simp: getEventBySlug_def try_catch_def bind_exn_def split: sum.splits)

lemma getFeaturedEvents_cases:
  "getFeaturedEvents e remote =
     (if \<not> isSupabaseConfigured e then Inr featuredSamples
      else case data_error (remote featuredQuery) of
        Inl x \<Rightarrow> Inr featuredSamples
      | Inr (d, err) \<Rightarrow>
          if truthy err then Inr featuredSamples
          else if truthy (opt_length d) then
            (case array_map mapDbEventToEvent d of Inl x \<Rightarrow> Inr featuredSamples | Inr evs \<Rightarrow> Inr evs)
          else Inr featuredSamples)"
  using the_client_configured [of e]
  by (auto simp: getFeaturedEvents_def try_catch_def bind_exn_def split: sum.splits)

lemma sampleEvents_ids:
  "length sampleEvents = 2 \<and> map id_field sampleEvents = [JStr (lit ''1''), JStr (lit ''2'')]"
  by (simp add: sampleEvents_def sampleEvent1_def sampleEvent2_def)

lemma featuredSamples_eq: "featuredSamples = sampleEvents"
  by (simp add: featuredSamples_def sampleEvents_def sampleEvent1_def sampleEvent2_def)

lemma map_exn_length: "map_exn f xs = Inr ys \<Longrightarrow> length ys = length xs"
  by (induction xs arbitrary: ys) (auto split: sum.splits)

lemma array_map_length:
  "array_map f d = Inr ys \<Longrightarrow> \<exists>rows. d = JArr rows \<and> length ys = length rows"
  by (cases d) (auto dest: map_exn_length)

lemma honours_limit_rows:
  assumes "honours_limit featuredQuery out" and "data_error out = Inr (JArr rows, err)"
  shows "length rows \<le> 3"
proof -
  have q: "q_limit featuredQuery = Some 3"
    by (simp add: featuredQuery_def limit_q_def)
  from assms(2) obtain res where "out = Resolves res" and "js_prop res (lit ''data'') = JArr rows"
    by (auto simp: data_error_def await_def bind_exn_def get_prop_def
        split: settled.splits if_splits)
  with assms(1) q show ?thesis
    by (simp add: honours_limit_def)
qed

text \<open>When the mapper returns an \<open>Event\<close>, and two of its fields.\<close>

lemma prim_exn_falsy: "\<not> truthy v \<Longrightarrow> prim_exn v = None"
  by (cases v) simp_all

lemma new_Date_Inr: "new_Date v = Inr d \<longleftrightarrow> prim_exn v = None \<and> d = DateOf v"
  by (auto simp: new_Date_def split: option.splits)

lemma new_Date_Inl: "new_Date v = Inl x \<longleftrightarrow> prim_exn v = Some x"
  by (auto simp: new_Date_def split: option.splits)

lemma mapDbEventToEvent_ok_iff:
  "(\<exists>ev. mapDbEventToEvent row = Inr ev) \<longleftrightarrow> \<not> nullish row \<and> dates_constructible row"
proof (cases "nullish row")
  case True
  then show ?thesis by (simp add: mapDbEventToEvent_def)
next
  case False
  have e: "prim_exn (js_prop row (lit ''end_date'')) = None"
    if "\<not> truthy (js_prop row (lit ''end_date''))"
    using that by (rule prim_exn_falsy)
  show ?thesis
  proof (cases "dates_constructible row")
    case True
    then have "new_Date (js_prop row (lit ''start_date'')) = Inr (DateOf (js_prop row (lit ''start_date'')))"
      "new_Date (js_prop row (lit ''end_date'')) = Inr (DateOf (js_prop row (lit ''end_date'')))"
      "new_Date (js_prop row (lit ''created_at'')) = Inr (DateOf (js_prop row (lit ''created_at'')))"
      "new_Date (js_prop row (lit ''updated_at'')) = Inr (DateOf (js_prop row (lit ''updated_at'')))"
      "new_Date (js_prop row (lit ''published_at'')) = Inr (DateOf (js_prop row (lit ''published_at'')))"
      by (simp_all add: dates_constructible_def date_columns_def new_Date_Inr)
    with False True show ?thesis
      by (simp add: mapDbEventToEvent_def bind_exn_def)
  next
    case nd: False
    then consider
        (a) "prim_exn (js_prop row (lit ''start_date'')) \<noteq> None"
      | (b) "prim_exn (js_prop row (lit ''end_date'')) \<noteq> None"
      | (c) "prim_exn (js_prop row (lit ''created_at'')) \<noteq> None"
      | (d) "prim_exn (js_prop row (lit ''updated_at'')) \<noteq> None"
      | (f) "prim_exn (js_prop row (lit ''published_at'')) \<noteq> None"
      by (auto simp: dates_constructible_def date_columns_def)
    then have "\<exists>x. mapDbEventToEvent row = Inl x"
    proof cases
      case a
      then obtain x where "new_Date (js_prop row (lit ''start_date'')) = Inl x"
        by (auto simp: new_Date_Inl)
      with False show ?thesis by (simp add: mapDbEventToEvent_def bind_exn_def)
    next
      case b
      with e have t: "truthy (js_prop row (lit ''end_date''))" by blast
      from b obtain x where "new_Date (js_prop row (lit ''end_date'')) = Inl x"
        by (auto simp: new_Date_Inl)
      with False t show ?thesis
        by (simp add: mapDbEventToEvent_def bind_exn_def split: sum.splits)
    next
      case c
      then obtain x where "new_Date (js_prop row (lit ''created_at'')) = Inl x"
        by (auto simp: new_Date_Inl)
      with False show ?thesis
        by (simp add: mapDbEventToEvent_def bind_exn_def split: sum.splits)
    next
      case d
      then obtain x where "new_Date (js_prop row (lit ''updated_at'')) = Inl x"
        by (auto simp: new_Date_Inl)
      with False show ?thesis
        by (simp add: mapDbEventToEvent_def bind_exn_def split: sum.splits)
    next
      case f
      then obtain x where "new_Date (js_prop row (lit ''published_at'')) = Inl x"
        by (auto simp: new_Date_Inl)
      with False show ?thesis
        by (simp add: mapDbEventToEvent_def bind_exn_def split: sum.splits)
    qed
    with nd show ?thesis by auto
  qed
qed

lemma mapDbEventToEvent_fields:
  "mapDbEventToEvent row = Inr ev \<Longrightarrow>
     status ev = js_or (js_prop row (lit ''status'')) (JStr (lit ''upcoming''))
     \<and> locationType ev = js_or (js_prop row (lit ''location_type'')) (JStr (lit ''virtual''))"
  by (auto simp: mapDbEventToEvent_def bind_exn_def split: if_splits sum.splits)

text \<open>A row with a date column that \<open>new Date\<close> rejects makes the mapper throw inside the
  \<open>try\<close> of an operation, which then falls back.\<close>

lemma getEvents_broken_date:
  "getEvents env_set (always (Resolves (JObj [(lit ''data'', JArr [broken_date_row]), (lit ''error'', JNull)])))
     = Inr sampleEvents"
proof -
  have "mapDbEventToEvent broken_date_row = Inl TypeError"
    by (simp add: broken_date_row_def mapDbEventToEvent_def bind_exn_def new_Date_def lit_def)
  moreover have "isSupabaseConfigured env_set"
    by (simp add: isSupabaseConfigured_iff missing_def env_set_def lit_def)
  moreover have "data_error (Resolves (JObj [(lit ''data'', JArr [broken_date_row]), (lit ''error'', JNull)]))
      = Inr (JArr [broken_date_row], JNull)"
    by (simp add: data_error_def await_def bind_exn_def get_prop_def lit_def)
  ultimately show ?thesis
    by (simp add: getEvents_cases)
qed

text \<open>
  C1. Whenever the endpoint or the key is missing, or the query of \<open>getEvents\<close> reports
  an error or throws, \<open>getEvents\<close> returns the sample events themselves: two events, with
  the ids \<open>'1'\<close> and \<open>'2'\<close> in this order.
\<close>

theorem getEvents_fallback:
  assumes "missing (PUBLIC_SUPABASE_URL e) \<or> missing (PUBLIC_SUPABASE_ANON_KEY e)
           \<or> reports_error (remote eventsQuery) \<or> throws (remote eventsQuery)"
  shows "getEvents e remote = Inr sampleEvents
         \<and> length sampleEvents = 2
         \<and> map id_field sampleEvents = [JStr (lit ''1''), JStr (lit ''2'')]"
proof -
  have "getEvents e remote = Inr sampleEvents"
  proof (cases "isSupabaseConfigured e")
    case False
    then show ?thesis by (simp add: getEvents_cases)
  next
    case True
    with assms have "reports_error (remote eventsQuery) \<or> throws (remote eventsQuery)"
      by (simp add: isSupabaseConfigured_iff)
    then show ?thesis
    proof
      assume "reports_error (remote eventsQuery)"
      from data_error_reports [OF this] show ?thesis
        by (auto simp: getEvents_cases)
    next
      assume "throws (remote eventsQuery)"
      from data_error_throws [OF this] show ?thesis
        by (auto simp: getEvents_cases)
    qed
  qed
  with sampleEvents_ids show ?thesis by simp
qed

theorem getEvents_fallback_witness:
  "missing (PUBLIC_SUPABASE_URL env_unset)
   \<and> getEvents env_unset (always (Resolves (JObj [(lit ''data'', JArr [JObj []]), (lit ''error'', JNull)])))
       = Inr sampleEvents
   \<and> reports_error (Resolves (JObj [(lit ''data'', JNull),
        (lit ''error'', JObj [(lit ''message'', JStr (lit ''permission denied''))])]))
   \<and> getEvents env_set (always (Resolves (JObj [(lit ''data'', JNull),
        (lit ''error'', JObj [(lit ''message'', JStr (lit ''permission denied''))])])))
       = Inr sampleEvents
   \<and> throws (Rejects (Thrown (JStr (lit ''fetch failed''))))
   \<and> getEvents env_set (always (Rejects (Thrown (JStr (lit ''fetch failed''))))) = Inr sampleEvents"
proof -
  have a: "missing (PUBLIC_SUPABASE_URL env_unset)"
    by (simp add: missing_def env_unset_def)
  have b: "reports_error (Resolves (JObj [(lit ''data'', JNull),
        (lit ''error'', JObj [(lit ''message'', JStr (lit ''permission denied''))])]))"
    by (simp add: reports_error_def lit_def)
  have c: "throws (Rejects (Thrown (JStr (lit ''fetch failed''))))"
    by (simp add: throws_def)
  show ?thesis
    using a b c
      getEvents_fallback [of env_unset
        "always (Resolves (JObj [(lit ''data'', JArr [JObj []]), (lit ''error'', JNull)]))"]
      getEvents_fallback [of env_set
        "always (Resolves (JObj [(lit ''data'', JNull),
           (lit ''error'', JObj [(lit ''message'', JStr (lit ''permission denied''))])]))"]
      getEvents_fallback [of env_set "always (Rejects (Thrown (JStr (lit ''fetch failed''))))"]
    by simp
qed

text \<open>
  C2. With both credentials set and a query that succeeds with zero rows, \<open>data\<close> is the
  empty array, which counts as true in \<open>data ? data.map(..) : sampleEvents\<close>: \<open>getEvents\<close>
  returns the empty sequence, not the sample events. (\<open>getFeaturedEvents\<close> tests
  \<open>data?.length\<close> instead and does fall back.)
\<close>

theorem getEvents_zero_rows:
  "isSupabaseConfigured env_set
   \<and> getEvents env_set (always (Resolves (JObj [(lit ''data'', JArr []), (lit ''error'', JNull)]))) = Inr []
   \<and> getEvents env_set (always (Resolves (JObj [(lit ''data'', JArr []), (lit ''error'', JNull)])))
       \<noteq> Inr sampleEvents
   \<and> getFeaturedEvents env_set (always (Resolves (JObj [(lit ''data'', JArr []), (lit ''error'', JNull)])))
       = Inr sampleEvents"
  by (simp add: getEvents_cases getFeaturedEvents_cases featuredSamples_eq isSupabaseConfigured_iff
      missing_def env_set_def data_error_def await_def bind_exn_def get_prop_def opt_length_def
      lit_def sampleEvents_def)

text \<open>
  C3. For every environment, every behaviour of the remote side and every slug, each of
  \<open>getEvents\<close>, \<open>getEventBySlug\<close> and \<open>getFeaturedEvents\<close> returns a value (\<open>Inr\<close>) and
  throws nothing (\<open>Inl\<close>); and when a credential is missing, or the query reports an
  error or throws, the value is the fallback of the operation: the sample events, the
  sample event with the slug if there is one, the featured sample events.
\<close>

theorem operations_never_throw:
  "(\<exists>evs. getEvents e remote = Inr evs)
   \<and> (\<exists>r. getEventBySlug e remote s = Inr r)
   \<and> (\<exists>evs. getFeaturedEvents e remote = Inr evs)
   \<and> (missing (PUBLIC_SUPABASE_URL e) \<or> missing (PUBLIC_SUPABASE_ANON_KEY e)
        \<or> reports_error (remote eventsQuery) \<or> throws (remote eventsQuery)
      \<longrightarrow> getEvents e remote = Inr sampleEvents)
   \<and> (missing (PUBLIC_SUPABASE_URL e) \<or> missing (PUBLIC_SUPABASE_ANON_KEY e)
        \<or> reports_error (remote (slugQuery s)) \<or> throws (remote (slugQuery s))
      \<longrightarrow> getEventBySlug e remote s = Inr (find (\<lambda>ev. slug ev = JStr s) sampleEvents))
   \<and> (missing (PUBLIC_SUPABASE_URL e) \<or> missing (PUBLIC_SUPABASE_ANON_KEY e)
        \<or> reports_error (remote featuredQuery) \<or> throws (remote featuredQuery)
      \<longrightarrow> getFeaturedEvents e remote = Inr (filter (\<lambda>ev. truthy (isFeatured ev)) sampleEvents))"
proof -
  have a: "\<exists>evs. getEvents e remote = Inr evs"
    by (simp add: getEvents_cases split: sum.splits prod.splits)
  have b: "\<exists>r. getEventBySlug e remote s = Inr r"
    by (simp add: getEventBySlug_cases split: sum.splits prod.splits)
  have c: "\<exists>evs. getFeaturedEvents e remote = Inr evs"
    by (simp add: getFeaturedEvents_cases split: sum.splits prod.splits)
  have d: "getEvents e remote = Inr sampleEvents"
    if "missing (PUBLIC_SUPABASE_URL e) \<or> missing (PUBLIC_SUPABASE_ANON_KEY e)
        \<or> reports_error (remote eventsQuery) \<or> throws (remote eventsQuery)"
    using that data_error_reports [of "remote eventsQuery"]
      data_error_throws [of "remote eventsQuery"]
    by (auto simp: getEvents_cases isSupabaseConfigured_iff)
  have f: "getEventBySlug e remote s = Inr (findSampleBySlug s)"
    if "missing (PUBLIC_SUPABASE_URL e) \<or> missing (PUBLIC_SUPABASE_ANON_KEY e)
        \<or> reports_error (remote (slugQuery s)) \<or> throws (remote (slugQuery s))"
    using that data_error_reports [of "remote (slugQuery s)"]
      data_error_throws [of "remote (slugQuery s)"]
    by (auto simp: getEventBySlug_cases isSupabaseConfigured_iff)
  have g: "getFeaturedEvents e remote = Inr featuredSamples"
    if "missing (PUBLIC_SUPABASE_URL e) \<or> missing (PUBLIC_SUPABASE_ANON_KEY e)
        \<or> reports_error (remote featuredQuery) \<or> throws (remote featuredQuery)"
    using that data_error_reports [of "remote featuredQuery"]
      data_error_throws [of "remote featuredQuery"]
    by (auto simp: getFeaturedEvents_cases isSupabaseConfigured_iff)
  from a b c d f g show ?thesis
    unfolding findSampleBySlug_def featuredSamples_def by blast
qed

theorem operations_never_throw_witness:
  "throws (Rejects TypeError)
   \<and> getEvents env_set (always (Rejects TypeError)) = Inr [sampleEvent1, sampleEvent2]
   \<and> getEventBySlug env_set (always (Rejects TypeError)) (lit ''data-pipelines-airflow'')
       = Inr (Some sampleEvent2)
   \<and> getEventBySlug env_set (always (Rejects TypeError)) (lit ''nonexistent'') = Inr None
   \<and> getFeaturedEvents env_set (always (Rejects TypeError)) = Inr [sampleEvent1, sampleEvent2]"
proof -
  have t: "throws (Rejects TypeError)"
    by (simp add: throws_def)
  have s: "find (\<lambda>ev. slug ev = JStr (lit ''data-pipelines-airflow'')) sampleEvents = Some sampleEvent2"
    "find (\<lambda>ev. slug ev = JStr (lit ''nonexistent'')) sampleEvents = None"
    "filter (\<lambda>ev. truthy (isFeatured ev)) sampleEvents = [sampleEvent1, sampleEvent2]"
    "sampleEvents = [sampleEvent1, sampleEvent2]"
    by (simp_all add: sampleEvents_def sampleEvent1_def sampleEvent2_def lit_def)
  show ?thesis
    using t s
      operations_never_throw [of env_set "always (Rejects TypeError)" "lit ''data-pipelines-airflow''"]
      operations_never_throw [of env_set "always (Rejects TypeError)" "lit ''nonexistent''"]
    by simp
qed

text \<open>
  C4, as the code has it. The query of \<open>getFeaturedEvents\<close> carries \<open>limit(3)\<close>, and the
  code returns one event for each row it receives, without a bound of its own. So the
  result has at most 3 events for every environment and every remote outcome in which
  the response honours the limit; every fallback is the featured sample events, of which
  there are two. When a credential is missing the result is the sample events whose
  \<open>isFeatured\<close> is true, in their order, which is both of them.
\<close>

theorem getFeaturedEvents_at_most_3:
  "(honours_limit featuredQuery (remote featuredQuery)
      \<longrightarrow> (\<exists>evs. getFeaturedEvents e remote = Inr evs \<and> length evs \<le> 3))
   \<and> (missing (PUBLIC_SUPABASE_URL e) \<or> missing (PUBLIC_SUPABASE_ANON_KEY e)
      \<longrightarrow> getFeaturedEvents e remote = Inr (filter (\<lambda>ev. truthy (isFeatured ev)) sampleEvents)
          \<and> filter (\<lambda>ev. truthy (isFeatured ev)) sampleEvents = sampleEvents
          \<and> map id_field sampleEvents = [JStr (lit ''1''), JStr (lit ''2'')])"
proof -
  have fb: "length featuredSamples \<le> 3"
    by (simp add: featuredSamples_eq sampleEvents_ids)
  have a: "\<exists>evs. getFeaturedEvents e remote = Inr evs \<and> length evs \<le> 3"
    if h: "honours_limit featuredQuery (remote featuredQuery)"
  proof (cases "isSupabaseConfigured e")
    case False
    with fb show ?thesis by (simp add: getFeaturedEvents_cases)
  next
    case True
    show ?thesis
    proof (cases "data_error (remote featuredQuery)")
      case (Inl x)
      with True fb show ?thesis by (simp add: getFeaturedEvents_cases)
    next
      case (Inr p)
      obtain d err where p: "p = (d, err)" by (cases p)
      show ?thesis
      proof (cases "array_map mapDbEventToEvent d")
        case (Inl x)
        with True Inr p fb show ?thesis by (simp add: getFeaturedEvents_cases)
      next
        case inr: (Inr evs)
        from array_map_length [OF inr] obtain rows
          where rows: "d = JArr rows" "length evs = length rows"
          by blast
        from honours_limit_rows [OF h] Inr p rows have "length evs \<le> 3" by simp
        with True Inr p inr fb show ?thesis by (simp add: getFeaturedEvents_cases)
      qed
    qed
  qed
  have b: "getFeaturedEvents e remote = Inr featuredSamples"
    if "missing (PUBLIC_SUPABASE_URL e) \<or> missing (PUBLIC_SUPABASE_ANON_KEY e)"
    using that by (auto simp: getFeaturedEvents_cases isSupabaseConfigured_iff)
  from a b featuredSamples_eq sampleEvents_ids show ?thesis
    unfolding featuredSamples_def by simp
qed

theorem getFeaturedEvents_at_most_3_witness:
  "honours_limit featuredQuery
     (Resolves (JObj [(lit ''data'', JArr [JObj [(lit ''id'', JStr (lit ''7''))], JObj []]),
                      (lit ''error'', JNull)]))
   \<and> (\<exists>evs. getFeaturedEvents env_set
         (always (Resolves (JObj [(lit ''data'', JArr [JObj [(lit ''id'', JStr (lit ''7''))], JObj []]),
                               (lit ''error'', JNull)]))) = Inr evs \<and> length evs \<le> 3)
   \<and> missing (PUBLIC_SUPABASE_URL env_unset)
   \<and> getFeaturedEvents env_unset (always (Rejects TypeError)) = Inr sampleEvents"
proof -
  have h: "honours_limit featuredQuery
     (Resolves (JObj [(lit ''data'', JArr [JObj [(lit ''id'', JStr (lit ''7''))], JObj []]),
                      (lit ''error'', JNull)]))"
    by (simp add: honours_limit_def featuredQuery_def limit_q_def lit_def)
  have m: "missing (PUBLIC_SUPABASE_URL env_unset)"
    by (simp add: missing_def env_unset_def)
  show ?thesis
    using h m
      getFeaturedEvents_at_most_3 [of
        "always (Resolves (JObj [(lit ''data'', JArr [JObj [(lit ''id'', JStr (lit ''7''))], JObj []]),
                              (lit ''error'', JNull)]))" env_set]
      getFeaturedEvents_at_most_3 [of "always (Rejects TypeError)" env_unset]
    by simp
qed

text \<open>
  C4, as the claim has it, fails on a remote outcome with more rows than the limit asked
  for: a response of four rows comes back as four events.
\<close>

theorem getFeaturedEvents_four_rows:
  "isSupabaseConfigured env_set
   \<and> q_limit featuredQuery = Some 3
   \<and> map_sum id length (getFeaturedEvents env_set (always (Resolves four_rows))) = Inr 4
   \<and> \<not> (4::nat) \<le> 3"
proof -
  have "\<exists>ev. mapDbEventToEvent featured_row = Inr ev"
    unfolding mapDbEventToEvent_ok_iff
    by (simp add: featured_row_def dates_constructible_def date_columns_def lit_def)
  moreover have "isSupabaseConfigured env_set"
    by (simp add: isSupabaseConfigured_iff missing_def env_set_def lit_def)
  moreover have "data_error (Resolves four_rows)
      = Inr (JArr [featured_row, featured_row, featured_row, featured_row], JNull)"
    by (simp add: data_error_def await_def bind_exn_def get_prop_def four_rows_def lit_def)
  ultimately show ?thesis
    by (auto simp: getFeaturedEvents_cases opt_length_def featuredQuery_def limit_q_def)
qed

text \<open>
  C5, as the code has it. The mapper turns a row into an \<open>Event\<close> exactly when the row is
  not \<open>null\<close> or \<open>undefined\<close> and each of its date columns can be given to \<open>new Date\<close>,
  which does not depend on \<open>status\<close> or \<open>location_type\<close>: no value of these two is
  rejected. In the \<open>Event\<close> the \<open>status\<close> and the \<open>location_type\<close> of the row are unchanged
  whenever the value counts as true, so every non-empty string outside the enumerated
  values passes through. A value that counts as false (the empty string, \<open>0\<close>, \<open>false\<close>,
  \<open>null\<close>) is replaced by the default, \<open>'upcoming'\<close> or \<open>'virtual'\<close>, as an absent one is.
\<close>

theorem mapDbEventToEvent_passthrough:
  "((\<exists>ev'. mapDbEventToEvent row = Inr ev') \<longleftrightarrow> \<not> nullish row \<and> dates_constructible row)
   \<and> (mapDbEventToEvent row = Inr ev \<longrightarrow>
        status ev = (if truthy (js_prop row (lit ''status'')) then js_prop row (lit ''status'')
                     else JStr (lit ''upcoming''))
        \<and> locationType ev = (if truthy (js_prop row (lit ''location_type''))
                             then js_prop row (lit ''location_type'') else JStr (lit ''virtual'')))"
  using mapDbEventToEvent_ok_iff [of row] mapDbEventToEvent_fields [of row ev]
  by (simp add: js_or_def)

theorem mapDbEventToEvent_passthrough_witness:
  "\<not> nullish plain_row \<and> dates_constructible plain_row
   \<and> js_prop plain_row (lit ''status'') = JStr (lit ''archived'')
   \<and> js_prop plain_row (lit ''location_type'') = JStr (lit ''online'')
   \<and> JStr (lit ''archived'') \<notin> set status_values
   \<and> JStr (lit ''online'') \<notin> set locationType_values
   \<and> map_sum id status (mapDbEventToEvent plain_row) = Inr (JStr (lit ''archived''))
   \<and> map_sum id locationType (mapDbEventToEvent plain_row) = Inr (JStr (lit ''online''))
   \<and> \<not> dates_constructible broken_date_row
   \<and> mapDbEventToEvent broken_date_row = Inl TypeError"
proof -
  have n: "\<not> nullish plain_row" "dates_constructible plain_row"
    by (simp_all add: plain_row_def dates_constructible_def date_columns_def lit_def)
  have s: "JStr (lit ''archived'') \<notin> set status_values"
    "JStr (lit ''online'') \<notin> set locationType_values"
    by (simp_all add: status_values_def locationType_values_def lit_def)
  have p: "js_prop plain_row (lit ''status'') = JStr (lit ''archived'')"
    "js_prop plain_row (lit ''location_type'') = JStr (lit ''online'')"
    "lit ''archived'' \<noteq> []" "lit ''online'' \<noteq> []"
    by (simp_all add: plain_row_def lit_def)
  from n mapDbEventToEvent_passthrough [of plain_row] obtain ev
    where e: "mapDbEventToEvent plain_row = Inr ev"
    by blast
  from e p mapDbEventToEvent_passthrough [of plain_row ev]
  have f: "status ev = JStr (lit ''archived'')" "locationType ev = JStr (lit ''online'')"
    by simp_all
  have b: "\<not> dates_constructible broken_date_row"
    by (simp add: broken_date_row_def dates_constructible_def date_columns_def lit_def)
  have t: "mapDbEventToEvent broken_date_row = Inl TypeError"
    by (simp add: broken_date_row_def mapDbEventToEvent_def bind_exn_def new_Date_def lit_def)
  from n s p e f b t show ?thesis
    by simp
qed

text \<open>
  C5, as the claim has it, fails: a row whose \<open>status\<close> is present and holds the empty
  string, which is outside the enumerated values, comes out with the default
  \<open>'upcoming'\<close>.
\<close>

theorem mapDbEventToEvent_empty_status:
  "map_of [(lit ''status'', JStr (lit ''''))] (lit ''status'') = Some (JStr (lit ''''))
   \<and> JStr (lit '''') \<notin> set status_values
   \<and> map_sum id status (mapDbEventToEvent (JObj [(lit ''status'', JStr (lit ''''))]))
       = Inr (JStr (lit ''upcoming''))
   \<and> JStr (lit ''upcoming'') \<noteq> JStr (lit '''')"
  by (simp add: mapDbEventToEvent_def bind_exn_def new_Date_def js_or_def status_values_def lit_def)

section \<open>Lemmas about the text functions and the feed\<close>

subsection \<open>Tags\<close>

lemma angle_not_space [simp]: "\<not> is_space LT" "\<not> is_space GT" "is_space SP" "\<not> is_space 0x2E"
  by (simp_all add: is_space_def)

lemma lit_dots: "lit ''...'' = [0x2E, 0x2E, 0x2E]"
  by (simp add: lit_def)

lemma has_tag_Nil [simp]: "\<not> has_tag []"
  by (simp add: has_tag_def)

lemma has_tag_Cons:
  "has_tag (c # cs) = (if c = LT then GT \<in> set cs else has_tag cs)"
  by (simp add: has_tag_def)

lemma set_dropWhile_subset: "set (dropWhile P xs) \<subseteq> set xs"
  by (meson set_dropWhileD subsetI)

lemma no_GT_no_tag: "GT \<notin> set s \<Longrightarrow> \<not> has_tag s"
  unfolding has_tag_def using set_dropWhile_subset [of "\<lambda>c. c \<noteq> LT" s] by blast

lemma no_LT_no_tag: "LT \<notin> set s \<Longrightarrow> \<not> has_tag s"
  by (induction s) (auto simp: has_tag_Cons)

text \<open>The three cases of \<open>strip_tags\<close> at a character.\<close>

lemma strip_tags_other: "c \<noteq> LT \<Longrightarrow> strip_tags (c # cs) = c # strip_tags cs"
  by simp

lemma strip_tags_open: "GT \<notin> set cs \<Longrightarrow> strip_tags (LT # cs) = LT # strip_tags cs"
proof -
  assume "GT \<notin> set cs"
  then have "dropWhile (\<lambda>x. x \<noteq> GT) cs = []" by auto
  then show ?thesis by (simp del: dropWhile_eq_Nil_conv)
qed

lemma strip_tags_closed:
  "dropWhile (\<lambda>x. x \<noteq> GT) cs = g # rest \<Longrightarrow> strip_tags (LT # cs) = SP # strip_tags rest"
  by simp

lemma set_strip_tags: "set (strip_tags s) \<subseteq> insert SP (set s)"
proof (induction s rule: strip_tags.induct)
  case 1
  then show ?case by simp
next
  case (2 c cs)
  show ?case
  proof (cases "c = LT")
    case False
    with 2(3) show ?thesis by (auto simp: strip_tags_other simp del: strip_tags.simps)
  next
    case True
    show ?thesis
    proof (cases "dropWhile (\<lambda>x. x \<noteq> GT) cs")
      case Nil
      then have "GT \<notin> set cs" by auto
      with True 2(1) [OF True Nil] show ?thesis
        by (auto simp: strip_tags_open simp del: strip_tags.simps)
    next
      case (Cons g rest)
      with set_dropWhile_subset [of "\<lambda>x. x \<noteq> GT" cs] have "set rest \<subseteq> set cs"
        by auto
      with True 2(2) [OF True Cons] show ?thesis
        by (auto simp: strip_tags_closed [OF Cons] simp del: strip_tags.simps)
    qed
  qed
qed

lemma strip_tags_no_tag: "\<not> has_tag (strip_tags s)"
proof (induction s rule: strip_tags.induct)
  case 1
  then show ?case by simp
next
  case (2 c cs)
  show ?case
  proof (cases "c = LT")
    case False
    with 2(3) show ?thesis
      by (simp add: strip_tags_other has_tag_Cons del: strip_tags.simps)
  next
    case True
    show ?thesis
    proof (cases "dropWhile (\<lambda>x. x \<noteq> GT) cs")
      case Nil
      then have g: "GT \<notin> set cs" by auto
      with set_strip_tags [of cs] have "GT \<notin> set (strip_tags cs)" by auto
      with True g show ?thesis
        by (simp add: strip_tags_open has_tag_Cons del: strip_tags.simps)
    next
      case (Cons g rest)
      with True 2(2) [OF True Cons] show ?thesis
        by (simp add: strip_tags_closed [OF Cons] has_tag_Cons del: strip_tags.simps)
    qed
  qed
qed

lemma strip_tags_id: "\<not> has_tag s \<Longrightarrow> strip_tags s = s"
proof (induction s rule: strip_tags.induct)
  case 1
  then show ?case by simp
next
  case (2 c cs)
  show ?case
  proof (cases "c = LT")
    case False
    with 2(3) 2(4) show ?thesis
      by (simp add: strip_tags_other has_tag_Cons del: strip_tags.simps)
  next
    case True
    with 2(4) have g: "GT \<notin> set cs" by (simp add: has_tag_Cons)
    then have d: "dropWhile (\<lambda>x. x \<noteq> GT) cs = []" by auto
    from g have "\<not> has_tag cs" by (rule no_GT_no_tag)
    with 2(1) [OF True d] have "strip_tags cs = cs" by simp
    with True g show ?thesis
      by (simp add: strip_tags_open del: strip_tags.simps)
  qed
qed

text \<open>The white space steps keep every character that is not white space, the angle
  brackets among them, so they neither make nor remove a tag.\<close>

lemma has_tag_filter:
  "has_tag (filter (\<lambda>c. c = LT \<or> c = GT) s) = has_tag s"
  by (induction s) (auto simp: has_tag_Cons)

lemma filter_dropWhile_space:
  "(\<And>c. P c \<Longrightarrow> \<not> is_space c) \<Longrightarrow> filter P (dropWhile is_space s) = filter P s"
  by (induction s) auto

lemma filter_collapse_ws:
  assumes "\<And>c. P c \<Longrightarrow> \<not> is_space c"
  shows "filter P (collapse_ws s) = filter P s"
proof (induction s rule: collapse_ws.induct)
  case 1
  then show ?case by simp
next
  case (2 c cs)
  from assms [of SP] have sp: "\<not> P SP" by auto
  show ?case
  proof (cases "is_space c")
    case True
    with assms have "\<not> P c" by auto
    with True sp 2(1) [OF True] filter_dropWhile_space [OF assms] show ?thesis
      by simp
  next
    case False
    with 2(2) show ?thesis by simp
  qed
qed

lemma filter_trim:
  assumes "\<And>c. P c \<Longrightarrow> \<not> is_space c"
  shows "filter P (trim s) = filter P s"
proof -
  have "filter P (trim s) = rev (filter P (dropWhile is_space (rev (dropWhile is_space s))))"
    by (simp add: trim_def rev_filter)
  also have "\<dots> = rev (filter P (rev (dropWhile is_space s)))"
    by (simp only: filter_dropWhile_space [OF assms])
  also have "\<dots> = filter P (dropWhile is_space s)"
    by (simp add: rev_filter)
  also have "\<dots> = filter P s"
    by (rule filter_dropWhile_space [OF assms])
  finally show ?thesis .
qed

lemma angle_outside_space: "c = LT \<or> c = GT \<Longrightarrow> \<not> is_space c"
  by auto

lemma has_tag_collapse_ws: "has_tag (collapse_ws s) = has_tag s"
  using has_tag_filter [of "collapse_ws s"] has_tag_filter [of s]
  by (simp add: filter_collapse_ws [OF angle_outside_space])

lemma has_tag_trim: "has_tag (trim s) = has_tag s"
  using has_tag_filter [of "trim s"] has_tag_filter [of s]
  by (simp add: filter_trim [OF angle_outside_space])

lemma has_tag_appendI: "has_tag a \<Longrightarrow> has_tag (a @ b)"
  by (induction a) (auto simp: has_tag_Cons split: if_splits)

lemma has_tag_take: "has_tag (take n s) \<Longrightarrow> has_tag s"
  using has_tag_appendI [of "take n s" "drop n s"] by simp

lemma has_tag_dots: "has_tag (a @ lit ''...'') = has_tag a"
  using has_tag_filter [of "a @ lit ''...''"] has_tag_filter [of a] by (simp add: lit_dots)

subsection \<open>White space\<close>

lemma collapse_ws_space: "is_space c \<Longrightarrow> collapse_ws (c # cs) = SP # collapse_ws (dropWhile is_space cs)"
  by simp

lemma collapse_ws_other: "\<not> is_space c \<Longrightarrow> collapse_ws (c # cs) = c # collapse_ws cs"
  by simp

lemma collapsed_Cons:
  "collapsed (c # r) = ((is_space c \<longrightarrow> c = SP \<and> (r = [] \<or> \<not> is_space (hd r))) \<and> collapsed r)"
  by (cases r) auto

lemma hd_collapse_ws:
  "t = [] \<or> \<not> is_space (hd t) \<Longrightarrow> collapse_ws t = [] \<or> \<not> is_space (hd (collapse_ws t))"
  by (cases t) auto

lemma dropWhile_starts: "dropWhile P xs = [] \<or> \<not> P (hd (dropWhile P xs))"
  using hd_dropWhile by blast

lemma collapsed_collapse_ws: "collapsed (collapse_ws s)"
proof (induction s rule: collapse_ws.induct)
  case 1
  then show ?case by simp
next
  case (2 c cs)
  show ?case
  proof (cases "is_space c")
    case True
    from hd_collapse_ws [OF dropWhile_starts [of is_space cs]] 2(1) [OF True] True
    show ?thesis
      by (simp add: collapse_ws_space collapsed_Cons del: collapse_ws.simps)
  next
    case False
    with 2(2) show ?thesis
      by (simp add: collapse_ws_other collapsed_Cons del: collapse_ws.simps)
  qed
qed

lemma collapsed_appendD: "collapsed (a @ b) \<Longrightarrow> collapsed a \<and> collapsed b"
proof (induction a)
  case Nil
  then show ?case by simp
next
  case (Cons c a)
  then show ?case
    by (cases a) (auto simp: collapsed_Cons)
qed

lemma collapsed_appendI:
  "collapsed a \<Longrightarrow> collapsed b \<Longrightarrow> b = [] \<or> \<not> is_space (hd b) \<Longrightarrow> collapsed (a @ b)"
proof (induction a)
  case Nil
  then show ?case by simp
next
  case (Cons c a)
  then show ?case
    by (cases a) (auto simp: collapsed_Cons)
qed

lemma trim_infix: "\<exists>a b. s = a @ trim s @ b"
proof -
  have "s = takeWhile is_space s @ dropWhile is_space s" by simp
  moreover have "rev (dropWhile is_space s)
      = takeWhile is_space (rev (dropWhile is_space s)) @ dropWhile is_space (rev (dropWhile is_space s))"
    by simp
  then have "dropWhile is_space s
      = trim s @ rev (takeWhile is_space (rev (dropWhile is_space s)))"
    unfolding trim_def by (metis rev_append rev_rev_ident)
  ultimately have "s = takeWhile is_space s @ trim s @ rev (takeWhile is_space (rev (dropWhile is_space s)))"
    by simp
  then show ?thesis by blast
qed

lemma collapsed_trim: "collapsed s \<Longrightarrow> collapsed (trim s)"
proof -
  assume c: "collapsed s"
  obtain a b where "s = a @ trim s @ b" using trim_infix by blast
  with c have "collapsed (a @ trim s @ b)" by simp
  then show ?thesis using collapsed_appendD by blast
qed

lemma collapsed_take: "collapsed s \<Longrightarrow> collapsed (take n s)"
  using collapsed_appendD [of "take n s" "drop n s"] by simp

lemma collapsed_dots: "collapsed a \<Longrightarrow> collapsed (a @ lit ''...'')"
  by (rule collapsed_appendI) (simp_all add: lit_dots)

lemma trimmed_trim: "trimmed (trim s)"
proof (cases "trim s = []")
  case True
  then show ?thesis by (simp add: trimmed_def)
next
  case False
  let ?u = "dropWhile is_space s"
  let ?v = "dropWhile is_space (rev ?u)"
  from False have v: "?v \<noteq> []" by (simp add: trim_def)
  have u: "?u \<noteq> []"
  proof
    assume e: "?u = []"
    have "?v = []" unfolding e by simp
    with v show False by blast
  qed
  have "last (trim s) = hd ?v"
    using v by (simp add: trim_def last_rev)
  moreover have "\<not> is_space (hd ?v)"
    using v hd_dropWhile by blast
  moreover have "hd (trim s) = last ?v"
    using v by (simp add: trim_def hd_rev)
  moreover have "last ?v = last (rev ?u)"
    using v by (metis last_appendR takeWhile_dropWhile_id)
  moreover have "last (rev ?u) = hd ?u"
    using u by (simp add: last_rev)
  moreover have "\<not> is_space (hd ?u)"
    using u hd_dropWhile by blast
  ultimately show ?thesis by (simp add: trimmed_def)
qed

lemma trim_id: "trimmed s \<Longrightarrow> trim s = s"
proof (cases "s = []")
  case True
  then show ?thesis by (simp add: trim_def)
next
  case False
  assume "trimmed s"
  with False have h: "\<not> is_space (hd s)" and l: "\<not> is_space (last s)"
    by (simp_all add: trimmed_def)
  from False h have a: "dropWhile is_space s = s"
    by (cases s) auto
  from False l have "\<not> is_space (hd (rev s))" by (simp add: hd_rev)
  with False have "dropWhile is_space (rev s) = rev s"
    by (cases "rev s") auto
  with a show ?thesis by (simp add: trim_def)
qed

lemma trimmed_dots: "trimmed a \<Longrightarrow> trimmed (a @ lit ''...'')"
  by (cases a) (auto simp: trimmed_def lit_dots)

lemma collapse_ws_id: "collapsed s \<Longrightarrow> collapse_ws s = s"
proof (induction s)
  case Nil
  then show ?case by simp
next
  case (Cons c r)
  then have r: "collapse_ws r = r" by (simp add: collapsed_Cons)
  show ?case
  proof (cases "is_space c")
    case False
    with r show ?thesis by simp
  next
    case True
    with Cons.prems have c: "c = SP" and "r = [] \<or> \<not> is_space (hd r)"
      by (simp_all add: collapsed_Cons)
    then have "dropWhile is_space r = r" by (cases r) auto
    with True c r show ?thesis by simp
  qed
qed

lemma length_trim_le: "length (trim s) \<le> length s"
proof -
  have "length (trim s) \<le> length (dropWhile is_space s)"
    unfolding trim_def using length_dropWhile_le [of is_space "rev (dropWhile is_space s)"] by simp
  also have "\<dots> \<le> length s" by (rule length_dropWhile_le)
  finally show ?thesis .
qed

text \<open>The cleaned text of \<open>extractExcerpt\<close> and the two branches of the function.\<close>

lemma clean_normal:
  "\<not> has_tag (trim (collapse_ws (strip_tags c)))"
  "collapsed (trim (collapse_ws (strip_tags c)))"
  "trimmed (trim (collapse_ws (strip_tags c)))"
  by (simp_all add: has_tag_trim has_tag_collapse_ws strip_tags_no_tag collapsed_trim
      collapsed_collapse_ws trimmed_trim)

lemma extractExcerpt_cases:
  "extractExcerpt content m =
     (if int (length (trim (collapse_ws (strip_tags content)))) \<le> m
      then trim (collapse_ws (strip_tags content))
      else trim (take (nat m) (trim (collapse_ws (strip_tags content)))) @ lit ''...'')"
  by (simp add: extractExcerpt_def Let_def)


subsection \<open>Words\<close>

lemma split_ws_nonempty: "split_ws s \<noteq> []"
  by (subst split_ws.simps) (simp split: list.splits)

lemma split_ws_Nil: "split_ws [] = [[]]"
  by (subst split_ws.simps) simp

lemma split_ws_word: "list_all (\<lambda>c. \<not> is_space c) w \<Longrightarrow> split_ws w = [w]"
proof -
  assume "list_all (\<lambda>c. \<not> is_space c) w"
  then have "dropWhile (\<lambda>c. \<not> is_space c) w = []"
    by (simp add: list_all_iff)
  then show ?thesis
    by (subst split_ws.simps) (simp del: dropWhile_eq_Nil_conv)
qed

lemma split_ws_step:
  assumes w: "list_all (\<lambda>c. \<not> is_space c) w" and g: "is_gap g"
    and t: "t = [] \<or> \<not> is_space (hd t)"
  shows "split_ws (w @ g @ t) = w # split_ws t"
proof -
  from g obtain d g' where dg: "g = d # g'" and d: "is_space d" and g': "list_all is_space g'"
    by (cases g) (auto simp: is_gap_def)
  from w have w': "\<And>x. x \<in> set w \<Longrightarrow> \<not> is_space x"
    by (simp add: list_all_iff)
  have dw: "dropWhile (\<lambda>c. \<not> is_space c) (w @ g @ t) = d # (g' @ t)"
    using w' d dg by (simp add: dropWhile_append2)
  have tw: "takeWhile (\<lambda>c. \<not> is_space c) (w @ g @ t) = w"
    using w' d dg by (simp add: takeWhile_append2)
  have "dropWhile is_space t = t"
    using t by (cases t) auto
  then have ds: "dropWhile is_space (g' @ t) = t"
    using g' by (simp add: dropWhile_append2 list_all_iff)
  show ?thesis
    by (subst split_ws.simps) (simp only: dw tw ds list.case)
qed

lemma text_of_hd: "is_word w \<Longrightarrow> text_of w rest \<noteq> [] \<and> hd (text_of w rest) = hd w"
  by (cases rest) (auto simp: is_word_def)

lemma text_of_last:
  "is_word w \<Longrightarrow> list_all (\<lambda>(g, w'). is_gap g \<and> is_word w') rest
     \<Longrightarrow> \<not> is_space (last (text_of w rest))"
proof (induction rest arbitrary: w)
  case Nil
  then show ?case by (auto simp: is_word_def list_all_iff)
next
  case (Cons p rest)
  obtain g w' where p: "p = (g, w')" by (cases p)
  with Cons.prems have w': "is_word w'" and r: "list_all (\<lambda>(g, w'). is_gap g \<and> is_word w') rest"
    by simp_all
  from text_of_hd [OF w'] have "text_of w' rest \<noteq> []" by simp
  with Cons.IH [OF w' r] p show ?case by simp
qed

lemma split_ws_text_of:
  "is_word w \<Longrightarrow> list_all (\<lambda>(g, w'). is_gap g \<and> is_word w') rest
     \<Longrightarrow> split_ws (text_of w rest) = w # map snd rest"
proof (induction rest arbitrary: w)
  case Nil
  then show ?case by (simp add: split_ws_word is_word_def)
next
  case (Cons p rest)
  obtain g w' where p: "p = (g, w')" by (cases p)
  with Cons.prems have g: "is_gap g" and w': "is_word w'"
    and r: "list_all (\<lambda>(g, w'). is_gap g \<and> is_word w') rest"
    by simp_all
  from text_of_hd [OF w'] w' have t: "text_of w' rest = [] \<or> \<not> is_space (hd (text_of w' rest))"
    by (cases w') (auto simp: is_word_def)
  from Cons.prems(1) have "list_all (\<lambda>c. \<not> is_space c) w" by (simp add: is_word_def)
  from split_ws_step [OF this g t] Cons.IH [OF w' r] p show ?case by simp
qed

lemma trim_padded:
  assumes "is_pad lead" and "is_pad trail" and "x \<noteq> []"
    and "\<not> is_space (hd x)" and "\<not> is_space (last x)"
  shows "trim (lead @ x @ trail) = x"
proof -
  from assms(1,3,4) have a: "dropWhile is_space (lead @ x @ trail) = x @ trail"
    by (cases x) (simp_all add: is_pad_def list_all_iff dropWhile_append2)
  from assms(3,5) have "\<not> is_space (hd (rev x))" by (simp add: hd_rev)
  with assms(3) have b: "dropWhile is_space (rev x) = rev x"
    by (cases "rev x") simp_all
  from assms(2) have "\<And>y. y \<in> set (rev trail) \<Longrightarrow> is_space y"
    by (simp add: is_pad_def list_all_iff)
  then have "dropWhile is_space (rev trail @ rev x) = dropWhile is_space (rev x)"
    by (rule dropWhile_append2)
  with a b show ?thesis by (simp add: trim_def)
qed

lemma calculateReadingTime_cases:
  "calculateReadingTime content = \<lceil>real (length (split_ws (trim (strip_tags content)))) / 200\<rceil>"
  by (simp add: calculateReadingTime_def Let_def)

lemma ceiling_pos: "0 < n \<Longrightarrow> 1 \<le> \<lceil>real n / 200\<rceil>"
  by (simp add: Suc_le_eq)

lemma ceiling_div: "\<lceil>real n / 200\<rceil> = int ((n + 199) div 200)"
proof -
  have "\<lceil>real n / 200\<rceil> = \<lceil>of_int (int n) / (of_int 200 :: real)\<rceil>" by simp
  also have "\<dots> = - (- int n div 200)" by (simp only: ceiling_divide_eq_div)
  also have "\<dots> = int ((n + 199) div 200)" by (simp add: zdiv_int)
  finally show ?thesis .
qed


lemma text_of_avoids:
  "c \<notin> set w \<Longrightarrow> list_all (\<lambda>(g, w'). c \<notin> set g \<and> c \<notin> set w') rest
     \<Longrightarrow> c \<notin> set (text_of w rest)"
proof (induction rest arbitrary: w)
  case Nil
  then show ?case by simp
next
  case (Cons p rest)
  obtain g w' where p: "p = (g, w')" by (cases p)
  with Cons.prems have "c \<notin> set g" "c \<notin> set w'"
    and "list_all (\<lambda>(g, w'). c \<notin> set g \<and> c \<notin> set w') rest"
    by simp_all
  with Cons.IH [of w'] Cons.prems(1) p show ?case by simp
qed

lemma list_all_replicate: "P x \<Longrightarrow> list_all P (replicate n x)"
  by (induction n) auto


subsection \<open>The feed\<close>

lemma map_exn_article_of:
  "list_all (\<lambda>i. \<not> nullish i) xs \<Longrightarrow> map_exn article_of xs = Inr (map article_fields xs)"
  by (induction xs) (auto simp: article_of_def)

lemma fetchMediumArticles_cases:
  "fetchMediumArticles limit parsed =
     (case parsed of
        Rejects x \<Rightarrow> Inr []
      | Resolves feed \<Rightarrow>
          if nullish feed then Inr []
          else (case js_prop feed (lit ''items'') of
                  JArr items \<Rightarrow>
                    (case map_exn article_of (list_slice0 items limit) of
                       Inl x \<Rightarrow> Inr [] | Inr arts \<Rightarrow> Inr arts)
                | _ \<Rightarrow> Inr []))"
  by (simp add: fetchMediumArticles_def try_catch_def bind_exn_def await_def get_prop_def
      split: settled.splits js_value.splits sum.splits)

section \<open>Properties of the article feed adapter\<close>

text \<open>
  C6, as the code has it. \<open>fetchMediumArticles\<close> never throws. When the feed cannot be
  fetched or parsed (the promise is rejected), and also when the parsed feed has no array
  of items, the result is the empty sequence. When the feed is parsed, its \<open>items\<close> are an
  array and \<open>limit\<close> is not negative, the result is the first \<open>limit\<close> items in the order
  of the feed, each mapped by \<open>article_fields\<close>, which puts \<open>'DEI Team'\<close> where the item has
  neither \<open>dc:creator\<close> nor \<open>creator\<close> and the empty array where it has no categories.
\<close>

theorem fetchMediumArticles_spec:
  "(\<exists>arts. fetchMediumArticles limit parsed = Inr arts)
   \<and> (throws parsed \<longrightarrow> fetchMediumArticles limit parsed = Inr [])
   \<and> (parsed = Resolves feed \<and> (nullish feed \<or> (\<forall>xs. js_prop feed (lit ''items'') \<noteq> JArr xs))
        \<longrightarrow> fetchMediumArticles limit parsed = Inr [])
   \<and> (0 \<le> limit \<and> parsed = Resolves feed \<and> \<not> nullish feed
        \<and> js_prop feed (lit ''items'') = JArr items
        \<and> list_all (\<lambda>i. \<not> nullish i) (take (nat limit) items)
        \<longrightarrow> fetchMediumArticles limit parsed = Inr (map article_fields (take (nat limit) items)))
   \<and> (js_prop item (lit ''dc:creator'') = JUndefined \<and> js_prop item (lit ''creator'') = JUndefined
        \<longrightarrow> dc_creator (article_fields item) = JStr (lit ''DEI Team''))
   \<and> (js_prop item (lit ''categories'') = JUndefined \<longrightarrow> categories (article_fields item) = JArr [])"
proof -
  have a: "\<exists>arts. fetchMediumArticles limit parsed = Inr arts"
    by (simp add: fetchMediumArticles_cases split: settled.splits js_value.splits sum.splits)
  have b: "fetchMediumArticles limit parsed = Inr []" if "throws parsed"
    using that by (simp add: fetchMediumArticles_cases throws_def split: settled.splits)
  have c: "fetchMediumArticles limit parsed = Inr []"
    if "parsed = Resolves feed \<and> (nullish feed \<or> (\<forall>xs. js_prop feed (lit ''items'') \<noteq> JArr xs))"
    using that by (auto simp: fetchMediumArticles_cases split: js_value.splits)
  have d: "fetchMediumArticles limit parsed = Inr (map article_fields (take (nat limit) items))"
    if "0 \<le> limit \<and> parsed = Resolves feed \<and> \<not> nullish feed
        \<and> js_prop feed (lit ''items'') = JArr items
        \<and> list_all (\<lambda>i. \<not> nullish i) (take (nat limit) items)"
    using that map_exn_article_of [of "take (nat limit) items"]
    by (simp add: fetchMediumArticles_cases list_slice0_def)
  have e: "dc_creator (article_fields item) = JStr (lit ''DEI Team'')"
    if "js_prop item (lit ''dc:creator'') = JUndefined \<and> js_prop item (lit ''creator'') = JUndefined"
    using that by (simp add: article_fields_def js_or_def)
  have f: "categories (article_fields item) = JArr []"
    if "js_prop item (lit ''categories'') = JUndefined"
    using that by (simp add: article_fields_def js_or_def)
  from a b c d e f show ?thesis by blast
qed

theorem fetchMediumArticles_spec_witness:
  "fetchMediumArticles 1 (Resolves feed2) = Inr [article_fields item_a]
   \<and> dc_creator (article_fields item_a) = JStr (lit ''DEI Team'')
   \<and> categories (article_fields item_b) = JArr []
   \<and> throws (Rejects (Thrown (JStr (lit ''Status code 503''))))
   \<and> fetchMediumArticles 1 (Rejects (Thrown (JStr (lit ''Status code 503'')))) = Inr []
   \<and> fetchMediumArticles 1 (Resolves (JObj [(lit ''items'', JNull)])) = Inr []"
proof -
  have p: "js_prop item_a (lit ''dc:creator'') = JUndefined"
    "js_prop item_a (lit ''creator'') = JUndefined"
    "js_prop item_b (lit ''categories'') = JUndefined"
    "js_prop (JObj [(lit ''items'', JNull)]) (lit ''items'') = JNull"
    by (simp_all add: item_a_def item_b_def lit_def)
  have t: "throws (Rejects (Thrown (JStr (lit ''Status code 503''))))"
    by (simp add: throws_def)
  have n: "\<not> nullish feed2" "\<not> nullish item_a" "js_prop feed2 (lit ''items'') = JArr [item_a, item_b]"
    by (simp_all add: feed2_def item_a_def)
  show ?thesis
    using p t n
      fetchMediumArticles_spec [of 1 "Resolves feed2" feed2 "[item_a, item_b]" item_a]
      fetchMediumArticles_spec [of 1 "Resolves feed2" feed2 "[item_a, item_b]" item_b]
      fetchMediumArticles_spec [of 1 "Rejects (Thrown (JStr (lit ''Status code 503'')))"]
      fetchMediumArticles_spec [of 1 "Resolves (JObj [(lit ''items'', JNull)])"
        "JObj [(lit ''items'', JNull)]"]
    by simp
qed

text \<open>
  C6, as the claim has it, fails for a negative \<open>limit\<close>: \<open>items.slice(0, -1)\<close> is every
  item but the last, so a feed of two items gives one article, not the first \<open>-1\<close> items.
\<close>

theorem fetchMediumArticles_negative_limit:
  "fetchMediumArticles (- 1) (Resolves feed2) = Inr [article_fields item_a]
   \<and> fetchMediumArticles (- 1) (Resolves feed2)
       \<noteq> Inr (map article_fields (take (nat (- 1)) [item_a, item_b]))"
proof -
  have "js_prop feed2 (lit ''items'') = JArr [item_a, item_b]" "\<not> nullish feed2"
    by (simp_all add: feed2_def)
  moreover have "\<not> nullish item_a"
    by (simp add: item_a_def)
  ultimately show ?thesis
    by (simp add: fetchMediumArticles_cases list_slice0_def article_of_def)
qed

text \<open>
  C7, as the code has it. For every content and every \<open>maxLength\<close> the excerpt has no
  tag-shaped substring, its white space is collapsed to single spaces and it is
  trimmed; the cleaning keeps every character that is not white space. The excerpt is
  the cleaned text when that has at most \<open>maxLength\<close> characters, and otherwise the
  trimmed first \<open>maxLength\<close> characters of it followed by \<open>'...'\<close>. For \<open>maxLength\<close> at least
  0 its length is at most \<open>maxLength + 3\<close>.
\<close>

theorem extractExcerpt_spec:
  "\<not> has_tag (extractExcerpt content maxLength)
   \<and> collapsed (extractExcerpt content maxLength)
   \<and> trimmed (extractExcerpt content maxLength)
   \<and> filter (\<lambda>c. \<not> is_space c) (trim (collapse_ws (strip_tags content)))
       = filter (\<lambda>c. \<not> is_space c) (strip_tags content)
   \<and> (int (length (trim (collapse_ws (strip_tags content)))) \<le> maxLength
        \<longrightarrow> extractExcerpt content maxLength = trim (collapse_ws (strip_tags content)))
   \<and> (maxLength < int (length (trim (collapse_ws (strip_tags content))))
        \<longrightarrow> extractExcerpt content maxLength
            = trim (take (nat maxLength) (trim (collapse_ws (strip_tags content)))) @ lit ''...'')
   \<and> (0 \<le> maxLength \<longrightarrow> int (length (extractExcerpt content maxLength)) \<le> maxLength + 3)"
proof -
  let ?clean = "trim (collapse_ws (strip_tags content))"
  let ?cut = "trim (take (nat maxLength) ?clean)"
  have t: "\<not> has_tag ?cut"
    using has_tag_take [of "nat maxLength" ?clean] clean_normal(1) [of content]
    by (auto simp: has_tag_trim)
  have c: "collapsed ?cut"
    by (intro collapsed_trim collapsed_take clean_normal)
  have l: "int (length ?cut) \<le> maxLength" if "0 \<le> maxLength"
    using length_trim_le [of "take (nat maxLength) ?clean"] that by (simp add: le_nat_iff)
  have "\<not> has_tag (extractExcerpt content maxLength)"
    using t clean_normal(1) [of content] by (simp add: extractExcerpt_cases has_tag_dots)
  moreover have "collapsed (extractExcerpt content maxLength)"
    using c clean_normal(2) [of content] by (simp add: extractExcerpt_cases collapsed_dots)
  moreover have "trimmed (extractExcerpt content maxLength)"
    using clean_normal(3) [of content] trimmed_trim [of "take (nat maxLength) ?clean"]
    by (simp add: extractExcerpt_cases trimmed_dots)
  moreover have "filter (\<lambda>c. \<not> is_space c) ?clean = filter (\<lambda>c. \<not> is_space c) (strip_tags content)"
    by (simp add: filter_trim filter_collapse_ws)
  moreover have "int (length (extractExcerpt content maxLength)) \<le> maxLength + 3" if "0 \<le> maxLength"
    using l [OF that] by (simp add: extractExcerpt_cases lit_dots)
  ultimately show ?thesis
    by (simp add: extractExcerpt_cases)
qed

theorem extractExcerpt_spec_witness:
  "(0::int) \<le> 50
   \<and> extractExcerpt test_html 50 = lit ''This is a long article with HTML tags that should...''
   \<and> int (length (extractExcerpt test_html 50)) \<le> 53
   \<and> \<not> has_tag (extractExcerpt test_html 50)"
proof -
  have e: "extractExcerpt test_html 50 = lit ''This is a long article with HTML tags that should...''"
    by code_simp
  have h: "(0::int) \<le> 50" by simp
  from h extractExcerpt_spec [of test_html 50]
  have "int (length (extractExcerpt test_html 50)) \<le> 53 \<and> \<not> has_tag (extractExcerpt test_html 50)"
    by simp
  with e h show ?thesis by blast
qed

text \<open>
  C7, as the claim has it, fails for a negative \<open>maxLength\<close>: no text is that short, the
  cut is empty, and the result \<open>'...'\<close> has 3 characters, more than \<open>maxLength + 3\<close>.
\<close>

theorem extractExcerpt_negative_maxLength:
  "extractExcerpt (lit ''abc'') (- 1) = lit ''...''
   \<and> \<not> int (length (extractExcerpt (lit ''abc'') (- 1))) \<le> - 1 + 3"
  by code_simp

text \<open>
  C8. Plain text without markup that consists of \<open>N\<close> words, separated by white space and
  possibly padded with white space, has reading time \<open>ceil (N / 200)\<close>, which is at
  least 1. Here \<open>N = Suc (length rest)\<close>: the first word and the words of \<open>rest\<close>.
\<close>

theorem calculateReadingTime_words:
  assumes "is_pad lead" and "is_pad trail" and "is_word w"
    and "list_all (\<lambda>(g, w'). is_gap g \<and> is_word w') rest"
    and "\<not> has_tag (lead @ text_of w rest @ trail)"
  shows "calculateReadingTime (lead @ text_of w rest @ trail) = \<lceil>real (Suc (length rest)) / 200\<rceil>
         \<and> \<lceil>real (Suc (length rest)) / 200\<rceil> = int ((Suc (length rest) + 199) div 200)
         \<and> 1 \<le> calculateReadingTime (lead @ text_of w rest @ trail)"
proof -
  from assms(3) have "\<not> is_space (hd w)"
    by (cases w) (simp_all add: is_word_def)
  with text_of_hd [OF assms(3), of rest]
  have x: "text_of w rest \<noteq> []" "\<not> is_space (hd (text_of w rest))"
    by simp_all
  from trim_padded [OF assms(1,2) x text_of_last [OF assms(3,4)]]
  have "trim (lead @ text_of w rest @ trail) = text_of w rest" .
  with split_ws_text_of [OF assms(3,4)] strip_tags_id [OF assms(5)]
  have "calculateReadingTime (lead @ text_of w rest @ trail) = \<lceil>real (Suc (length rest)) / 200\<rceil>"
    by (simp add: calculateReadingTime_cases)
  with ceiling_pos [of "Suc (length rest)"] ceiling_div [of "Suc (length rest)"] show ?thesis
    by simp
qed

theorem calculateReadingTime_words_witness:
  "is_pad (lit '' '') \<and> is_pad (lit '''') \<and> is_word (lit ''data'')
   \<and> list_all (\<lambda>(g, w'). is_gap g \<and> is_word w') two_hundred_more
   \<and> \<not> has_tag (lit '' '' @ text_of (lit ''data'') two_hundred_more @ lit '''')
   \<and> calculateReadingTime (lit '' '' @ text_of (lit ''data'') two_hundred_more @ lit '''') = 2"
proof -
  have a: "is_pad (lit '' '')" "is_pad (lit '''')" "is_word (lit ''data'')"
    "is_gap (lit ''  '')" "is_word (lit ''etl'')"
    by code_simp+
  have b: "list_all (\<lambda>(g, w'). is_gap g \<and> is_word w') two_hundred_more"
    unfolding two_hundred_more_def by (rule list_all_replicate) (simp add: a)
  have d: "LT \<notin> set (lit ''data'')" "LT \<notin> set (lit ''  '')" "LT \<notin> set (lit ''etl'')"
    by (simp_all add: lit_def)
  have "list_all (\<lambda>(g, w'). LT \<notin> set g \<and> LT \<notin> set w') two_hundred_more"
    unfolding two_hundred_more_def by (rule list_all_replicate) (simp add: d)
  from text_of_avoids [OF d(1) this]
  have "LT \<notin> set (lit '' '' @ text_of (lit ''data'') two_hundred_more @ lit '''')"
    by (simp add: lit_def)
  then have c: "\<not> has_tag (lit '' '' @ text_of (lit ''data'') two_hundred_more @ lit '''')"
    by (rule no_LT_no_tag)
  have l: "length two_hundred_more = 200"
    unfolding two_hundred_more_def by (rule length_replicate)
  from calculateReadingTime_words [OF a(1,2,3) b c] a b c l show ?thesis
    by simp
qed

text \<open>
  C9, as the code has it. A string without tag-shaped substrings, with collapsed white
  space, without white space at either end and of length at most \<open>maxLength\<close> is its own
  excerpt; and the excerpt of an excerpt that was not truncated is that excerpt.
\<close>

theorem extractExcerpt_fixpoint:
  "(\<not> has_tag s \<and> collapsed s \<and> trimmed s \<and> int (length s) \<le> maxLength
      \<longrightarrow> extractExcerpt s maxLength = s)
   \<and> (int (length (trim (collapse_ws (strip_tags content)))) \<le> maxLength
      \<longrightarrow> extractExcerpt (extractExcerpt content maxLength) maxLength
          = extractExcerpt content maxLength)"
proof -
  have a: "extractExcerpt s m = s"
    if "\<not> has_tag s" "collapsed s" "trimmed s" "int (length s) \<le> m" for s m
    using that by (simp add: extractExcerpt_cases strip_tags_id collapse_ws_id trim_id)
  have b: "extractExcerpt (extractExcerpt content maxLength) maxLength = extractExcerpt content maxLength"
    if h: "int (length (trim (collapse_ws (strip_tags content)))) \<le> maxLength"
  proof -
    from h have e: "extractExcerpt content maxLength = trim (collapse_ws (strip_tags content))"
      by (simp add: extractExcerpt_cases)
    show ?thesis
      unfolding e using a [OF clean_normal h] .
  qed
  from a b show ?thesis by blast
qed

theorem extractExcerpt_fixpoint_witness:
  "\<not> has_tag (lit ''a b'') \<and> collapsed (lit ''a b'') \<and> trimmed (lit ''a b'')
   \<and> int (length (lit ''a b'')) \<le> 5
   \<and> extractExcerpt (lit ''a b'') 5 = lit ''a b''
   \<and> int (length (trim (collapse_ws (strip_tags (lit ''<b>a</b>  b''))))) \<le> 10
   \<and> extractExcerpt (extractExcerpt (lit ''<b>a</b>  b'') 10) 10 = extractExcerpt (lit ''<b>a</b>  b'') 10"
proof -
  have h: "\<not> has_tag (lit ''a b'')" "collapsed (lit ''a b'')" "trimmed (lit ''a b'')"
    "int (length (lit ''a b'')) \<le> 5"
    "int (length (trim (collapse_ws (strip_tags (lit ''<b>a</b>  b''))))) \<le> 10"
    by code_simp+
  with extractExcerpt_fixpoint [of "lit ''a b''" 5 "lit ''<b>a</b>  b''"]
    extractExcerpt_fixpoint [of "lit ''a b''" 10 "lit ''<b>a</b>  b''"]
  show ?thesis
    by simp
qed

text \<open>
  C9, as the claim has it, fails on a string that starts with a space: it has no tag,
  its white space is collapsed and it is short enough, yet \<open>extractExcerpt\<close> trims it.
\<close>

theorem extractExcerpt_leading_space:
  "\<not> has_tag (lit '' a'') \<and> collapsed (lit '' a'') \<and> int (length (lit '' a'')) \<le> 5
   \<and> extractExcerpt (lit '' a'') 5 = lit ''a''
   \<and> extractExcerpt (lit '' a'') 5 \<noteq> lit '' a''"
  by code_simp

text \<open>
  C10. \<open>calculateReadingTime\<close> is at least 1 for every content. It is 1 for the empty
  string and for every string of white space alone, since splitting the empty trimmed
  string gives one empty piece.
\<close>

theorem calculateReadingTime_at_least_1:
  "1 \<le> calculateReadingTime content
   \<and> calculateReadingTime [] = 1
   \<and> (list_all is_space content \<longrightarrow> calculateReadingTime content = 1)
   \<and> split_ws (trim []) = [[]]"
proof -
  have a: "1 \<le> calculateReadingTime content"
    using split_ws_nonempty [of "trim (strip_tags content)"] ceiling_pos
    by (simp add: calculateReadingTime_cases)
  have e: "trim [] = []" by (simp add: trim_def)
  have one: "\<lceil>real (Suc 0) / 200\<rceil> = 1" unfolding ceiling_div by simp
  have b: "calculateReadingTime c = 1" if h: "list_all is_space c" for c
  proof -
    from h have "LT \<notin> set c" by (auto simp: list_all_iff)
    then have "strip_tags c = c" by (simp add: strip_tags_id no_LT_no_tag)
    moreover from h have "dropWhile is_space c = []" by (simp add: list_all_iff)
    then have "trim c = []" by (simp add: trim_def del: dropWhile_eq_Nil_conv)
    ultimately show ?thesis using one by (simp add: calculateReadingTime_cases split_ws_Nil)
  qed
  from b [of "[]"] have c: "calculateReadingTime [] = 1" by simp
  from a b c e show ?thesis by (simp add: split_ws_Nil)
qed

theorem calculateReadingTime_at_least_1_witness:
  "list_all is_space (lit ''   '') \<and> calculateReadingTime (lit ''   '') = 1
   \<and> 1 \<le> calculateReadingTime (lit ''<p></p>'')"
proof -
  have a: "list_all is_space (lit ''   '')" by code_simp
  with calculateReadingTime_at_least_1 [of "lit ''   ''"]
    calculateReadingTime_at_least_1 [of "lit ''<p></p>''"]
  show ?thesis by simp
qed

end
